theory Spec2Isabelle
  imports Main "HOL-Library.Sublist"
begin

section \<open>JavaScript values and plain objects\<close>

text \<open>
  A shallow embedding of the schema builder of \<^verbatim>\<open>FluentJSONSchema.cjs\<close>
  (the bundled form of \<^verbatim>\<open>src/utils.js\<close>, \<^verbatim>\<open>src/BaseSchema.js\<close>,
  \<^verbatim>\<open>src/ObjectSchema.js\<close>, \<^verbatim>\<open>src/RawSchema.js\<close>, ...).

  The builder state \<^verbatim>\<open>schema\<close> is an ordinary JavaScript object, and so are the
  attributes of a property and the serialized output. They are modelled by one type of
  JavaScript values. \<open>JUndef\<close> is \<^verbatim>\<open>undefined\<close>; \<open>REQUIRED\<close> is the module's
  private symbol \<^verbatim>\<open>Symbol('required')\<close>, the only symbol the code creates.

  Boundaries of the model:
  \<^item> numbers are integers (no fractions, NaN or infinities);
  \<^item> an object is the list of its own string-keyed properties in insertion order, every
    key once. JavaScript engines enumerate array-index keys (\<^verbatim>\<open>"0"\<close>, \<^verbatim>\<open>"1"\<close>, ...) before
    the other keys and treat the key \<^verbatim>\<open>__proto__\<close> specially in \<^verbatim>\<open>Object.assign\<close>;
    the model does neither. A property keyed by a symbol is invisible to
    \<^verbatim>\<open>Object.entries\<close>, \<^verbatim>\<open>Object.keys\<close>, property reads by name and JSON, and is not
    recorded;
  \<^item> values carry no functions, so an own property called \<^verbatim>\<open>valueOf\<close>, \<^verbatim>\<open>toString\<close>,
    \<^verbatim>\<open>reduce\<close>, ... is never callable;
  \<^item> \<^verbatim>\<open>===\<close> and \<^verbatim>\<open>indexOf\<close> compare arrays and objects by reference; the model
    compares them by structure (the names of a \<^verbatim>\<open>required\<close> list are primitives);
  \<^item> \<^verbatim>\<open>extend\<close> (which calls the external package \<^verbatim>\<open>@fastify/deepmerge\<close>),
    \<^verbatim>\<open>MixedSchema\<close> and regular-expression arguments of \<^verbatim>\<open>pattern\<close> are not modelled.
\<close>

datatype jsval =
    JUndef
  | JNull
  | JBool bool
  | JNum int
  | JStr string
  | REQUIRED
  | JArr "jsval list"
  | JObj "(string \<times> jsval) list"

type_synonym obj = "(string \<times> jsval) list"

text \<open>
  The code throws \<^verbatim>\<open>FluentSchemaError\<close>; the JavaScript engine throws \<^verbatim>\<open>TypeError\<close>
  (a call of something that is not a function, a read from \<^verbatim>\<open>undefined\<close>, a spread of
  something that is not iterable). \<open>NotModelled\<close> is not a JavaScript error: it is the
  result on the few inputs whose implicit conversion the model does not follow (the
  string form of an integer beyond \<open>2 ^ 53\<close> in absolute value, which JavaScript prints
  rounded, of an array or of an object; the
  numeric value of a \<^verbatim>\<open>length\<close> property that is not a number).
\<close>

datatype error = FluentSchemaError | TypeError | NotModelled

definition ebind :: "error + 'a \<Rightarrow> ('a \<Rightarrow> error + 'b) \<Rightarrow> error + 'b" where
  "ebind m f = (case m of Inl e \<Rightarrow> Inl e | Inr x \<Rightarrow> f x)"

fun truthy :: "jsval \<Rightarrow> bool" where
  "truthy JUndef = False"
| "truthy JNull = False"
| "truthy (JBool b) = b"
| "truthy (JNum n) = (n \<noteq> 0)"
| "truthy (JStr s) = (s \<noteq> [])"
| "truthy REQUIRED = True"
| "truthy (JArr xs) = True"
| "truthy (JObj kvs) = True"

text \<open>\<^verbatim>\<open>a || b\<close>\<close>

definition js_or :: "jsval \<Rightarrow> jsval \<Rightarrow> jsval" where
  "js_or a b = (if truthy a then a else b)"

fun isArray :: "jsval \<Rightarrow> bool" where
  "isArray (JArr xs) = True"
| "isArray _ = False"

text \<open>\<^verbatim>\<open>typeof v === 'object'\<close>: true of objects, arrays and \<^verbatim>\<open>null\<close>.\<close>

fun typeof_object :: "jsval \<Rightarrow> bool" where
  "typeof_object (JObj kvs) = True"
| "typeof_object (JArr xs) = True"
| "typeof_object JNull = True"
| "typeof_object _ = False"

fun typeof_string :: "jsval \<Rightarrow> bool" where
  "typeof_string (JStr s) = True"
| "typeof_string _ = False"

subsection \<open>Decimal numerals and string conversion\<close>

definition digit :: "nat \<Rightarrow> char" where
  "digit d = ''0123456789'' ! (d mod 10)"

fun show_nat :: "nat \<Rightarrow> string" where
  "show_nat n = (if n < 10 then [digit n] else show_nat (n div 10) @ [digit n])"

declare show_nat.simps [simp del]

text \<open>
  \<^verbatim>\<open>String(v)\<close> as a template literal computes it. A symbol cannot be converted
  (TypeError).
\<close>

fun to_str :: "jsval \<Rightarrow> error + string" where
  "to_str (JStr s) = Inr s"
| "to_str JUndef = Inr ''undefined''"
| "to_str JNull = Inr ''null''"
| "to_str (JBool b) = Inr (if b then ''true'' else ''false'')"
| "to_str (JNum n) =
     (if \<bar>n\<bar> \<le> 2 ^ 53
      then Inr (if n < 0 then CHR ''-'' # show_nat (nat (- n)) else show_nat (nat n))
      else Inl NotModelled)"
| "to_str REQUIRED = Inl TypeError"
| "to_str (JArr xs) = Inl NotModelled"
| "to_str (JObj kvs) = Inl NotModelled"

text \<open>
  The key of a computed property \<^verbatim>\<open>{ [name]: v }\<close>: the string form of \<open>name\<close>, or
  \<open>None\<close> when \<open>name\<close> is a symbol (the property is then keyed by the symbol).
\<close>

definition to_key :: "jsval \<Rightarrow> error + string option" where
  "to_key name =
     (if name = REQUIRED then Inr None else ebind (to_str name) (\<lambda>s. Inr (Some s)))"

subsection \<open>Object operations\<close>

text \<open>\<^verbatim>\<open>o[k]\<close> on the own properties: \<^verbatim>\<open>undefined\<close> when the key is missing.\<close>

definition obj_get :: "obj \<Rightarrow> string \<Rightarrow> jsval" where
  "obj_get kvs k = (case map_of kvs k of None \<Rightarrow> JUndef | Some v \<Rightarrow> v)"

text \<open>
  \<^verbatim>\<open>o[k] = v\<close> on a copy: an existing key keeps its place, a new key goes to the end.
\<close>

fun obj_set :: "string \<Rightarrow> jsval \<Rightarrow> obj \<Rightarrow> obj" where
  "obj_set k v [] = [(k, v)]"
| "obj_set k v ((k', v') # kvs) =
     (if k = k' then (k, v) # kvs else (k', v') # obj_set k v kvs)"

text \<open>\<^verbatim>\<open>{ ...a, ...b }\<close> and \<^verbatim>\<open>Object.assign({}, a, b)\<close>.\<close>

definition obj_assign :: "obj \<Rightarrow> obj \<Rightarrow> obj" where
  "obj_assign a b = foldl (\<lambda>memo (k, v). obj_set k v memo) a b"

text \<open>The rest of a destructuring \<^verbatim>\<open>const { k, ...rest } = o\<close>.\<close>

definition obj_del :: "string \<Rightarrow> obj \<Rightarrow> obj" where
  "obj_del k kvs = filter (\<lambda>(k', v). k' \<noteq> k) kvs"

text \<open>
  The own enumerable string-keyed properties of any value, as \<^verbatim>\<open>Object.entries\<close> and
  an object spread \<^verbatim>\<open>{ ...v }\<close> see them: the elements of an array and the characters
  of a string under their indices, nothing for the other primitives.
\<close>

fun own_entries :: "jsval \<Rightarrow> obj" where
  "own_entries (JObj kvs) = kvs"
| "own_entries (JArr xs) = zip (map show_nat [0..<length xs]) xs"
| "own_entries (JStr s) = zip (map show_nat [0..<length s]) (map (\<lambda>c. JStr [c]) s)"
| "own_entries _ = []"

text \<open>
  A property read \<^verbatim>\<open>v.k\<close> on a value that is neither \<^verbatim>\<open>undefined\<close> nor \<^verbatim>\<open>null\<close>,
  for the names the code reads (\<^verbatim>\<open>name\<close>, \<^verbatim>\<open>$id\<close>, \<^verbatim>\<open>type\<close>, \<^verbatim>\<open>def\<close>, ...): none of
  them is a property of an array, a string, a number, a boolean or a symbol.
\<close>

fun get :: "jsval \<Rightarrow> string \<Rightarrow> jsval" where
  "get (JObj kvs) k = obj_get kvs k"
| "get _ k = JUndef"

text \<open>
  \<^verbatim>\<open>const omit = (obj, props) => Object.entries(obj).reduce((memo, [key, value]) => {
    if (props.includes(key)) return memo
    return { ...memo, [key]: value } }, {})\<close>
\<close>

definition omit :: "obj \<Rightarrow> string list \<Rightarrow> obj" where
  "omit ob props =
     foldl (\<lambda>memo (key, value). if key \<in> set props then memo else obj_set key value memo) [] ob"

text \<open>
  An array spread \<^verbatim>\<open>[...v]\<close>: the elements of an array, the characters of a string;
  anything else is not iterable.
\<close>

fun spread :: "jsval \<Rightarrow> error + jsval list" where
  "spread (JArr xs) = Inr xs"
| "spread (JStr s) = Inr (map (\<lambda>c. JStr [c]) s)"
| "spread _ = Inl TypeError"

text \<open>
  \<^verbatim>\<open>const last = array => {
    if (!array) return
    const [prop] = [...array].reverse()
    return prop }\<close>
\<close>

definition last_of :: "jsval \<Rightarrow> error + jsval" where
  "last_of array =
     (if \<not> truthy array then Inr JUndef
      else ebind (spread array) (\<lambda>xs. Inr (case rev xs of [] \<Rightarrow> JUndef | prop # _ \<Rightarrow> prop)))"

text \<open>
  \<^verbatim>\<open>const isUniq = array => array.filter((v, i, a) => a.indexOf(v) === i).length === array.length\<close>:
  every element is the first occurrence of itself. \<^verbatim>\<open>indexOf\<close> compares with \<^verbatim>\<open>===\<close>: by value
  for strings, numbers, booleans, \<^verbatim>\<open>null\<close>, \<^verbatim>\<open>undefined\<close> and the one symbol, by reference
  for arrays and objects. Values of the model have no reference, and \<open>indexOf\<close> below
  compares by structure: it is the \<^verbatim>\<open>indexOf\<close> of the code on lists of primitive values only,
  and the properties about \<open>isUniq\<close> are stated for lists of strings.
\<close>

fun indexOf :: "jsval list \<Rightarrow> jsval \<Rightarrow> int" where
  "indexOf [] v = - 1"
| "indexOf (x # xs) v =
     (if x = v then 0 else (let i = indexOf xs v in if i < 0 then - 1 else i + 1))"

definition isUniq :: "jsval list \<Rightarrow> bool" where
  "isUniq array =
     (length (filter (\<lambda>(v, i). indexOf array v = int i) (zip array [0..<length array]))
        = length array)"


text \<open>\<^verbatim>\<open>v.reduce(...)\<close>, \<^verbatim>\<open>v.every(...)\<close>, \<^verbatim>\<open>v.filter(...)\<close>: methods of arrays only.\<close>

fun array_of :: "jsval \<Rightarrow> error + jsval list" where
  "array_of (JArr xs) = Inr xs"
| "array_of _ = Inl TypeError"

text \<open>\<^verbatim>\<open>$id.replace('#', '')\<close>: removes the first \<^verbatim>\<open>#\<close>; only a string has the method.\<close>

fun remove_hash :: "string \<Rightarrow> string" where
  "remove_hash [] = []"
| "remove_hash (c # cs) = (if c = CHR ''#'' then cs else c # remove_hash cs)"

fun replace_hash :: "jsval \<Rightarrow> error + string" where
  "replace_hash (JStr s) = Inr (remove_hash s)"
| "replace_hash _ = Inl TypeError"

section \<open>Builders\<close>

text \<open>
  A builder is the object a factory function returns: a set of closures over the
  factory's parameters \<^verbatim>\<open>schema\<close> and \<^verbatim>\<open>options\<close>. \<open>made_by\<close> is the factory that
  returned it, which fixes the methods it has. The methods it takes from
  \<^verbatim>\<open>BaseSchema({ ...options, schema })\<close> see the schema passed at construction
  (\<open>base_schema\<close>); the methods its own factory adds see the factory's variable
  \<^verbatim>\<open>schema\<close> (\<open>schema\<close>), which \<^verbatim>\<open>ObjectSchema.prop\<close> assigns to.
  Of the options, \<^verbatim>\<open>generateIds\<close> is only tested for truth; an absent \<^verbatim>\<open>factory\<close> is
  \<open>None\<close>.
\<close>

datatype kind =
    BaseSchema | NullSchema | BooleanSchema | StringSchema | NumberSchema
  | IntegerSchema | ObjectSchema | ArraySchema | S

record options =
  generateIds :: bool
  factory :: "kind option"

record builder =
  made_by :: kind
  base_schema :: obj
  schema :: obj
  opts :: options

text \<open>The second argument of \<^verbatim>\<open>prop\<close> and its like: a builder or a plain value.\<close>

datatype arg = Fluent builder | Plain jsval

text \<open>
  \<^verbatim>\<open>options = { generateIds: false, factory: F, ...options }\<close> at the head of
  \<^verbatim>\<open>ObjectSchema\<close>, \<^verbatim>\<open>ArraySchema\<close>, \<^verbatim>\<open>NullSchema\<close> and \<^verbatim>\<open>BooleanSchema\<close> (whose default
  factory is \<^verbatim>\<open>BaseSchema\<close>). The other factories take the options as they come.
\<close>

definition with_default_factory :: "kind \<Rightarrow> options \<Rightarrow> options" where
  "with_default_factory d os =
     os\<lparr>factory := (case factory os of None \<Rightarrow> Some d | Some f \<Rightarrow> Some f)\<rparr>"

fun filled :: "kind \<Rightarrow> options \<Rightarrow> options" where
  "filled ObjectSchema os = with_default_factory ObjectSchema os"
| "filled ArraySchema os = with_default_factory ArraySchema os"
| "filled NullSchema os = with_default_factory NullSchema os"
| "filled BooleanSchema os = with_default_factory BaseSchema os"
| "filled k os = os"

text \<open>The call \<^verbatim>\<open>F({ schema, ...options })\<close> of the factory function \<open>F\<close>.\<close>

definition construct :: "kind \<Rightarrow> obj \<Rightarrow> options \<Rightarrow> builder" where
  "construct k sch os =
     \<lparr>made_by = k, base_schema = sch, schema = sch, opts = filled k os\<rparr>"

text \<open>\<^verbatim>\<open>options.factory({ schema, ...options })\<close>: calling \<^verbatim>\<open>undefined\<close> is a TypeError.\<close>

definition call_factory :: "options \<Rightarrow> obj \<Rightarrow> error + builder" where
  "call_factory os sch =
     (case factory os of None \<Rightarrow> Inl TypeError | Some k \<Rightarrow> Inr (construct k sch os))"

section \<open>Serialization\<close>

text \<open>
  \<^verbatim>\<open>const flat = array => array.reduce((memo, prop) => {
    const { name, ...rest } = prop
    return { ...memo, [name]: rest } }, {})\<close>
  Destructuring \<^verbatim>\<open>undefined\<close> or \<^verbatim>\<open>null\<close> is a TypeError. The keys of the result are
  in the order in which the names come first, which is the order of the keys of the
  JavaScript object when no name is an array index (see the boundaries of the model).
\<close>

definition flat_step :: "obj \<Rightarrow> jsval \<Rightarrow> error + obj" where
  "flat_step memo prop =
     (if prop = JUndef \<or> prop = JNull then Inl TypeError
      else ebind (to_key (get prop ''name''))
        (\<lambda>key. case key of
             None \<Rightarrow> Inr memo
           | Some name \<Rightarrow> Inr (obj_set name (JObj (obj_del ''name'' (own_entries prop))) memo)))"

fun flat_reduce :: "obj \<Rightarrow> jsval list \<Rightarrow> error + obj" where
  "flat_reduce memo [] = Inr memo"
| "flat_reduce memo (prop # array) = ebind (flat_step memo prop) (\<lambda>memo'. flat_reduce memo' array)"

definition flat :: "jsval \<Rightarrow> error + obj" where
  "flat array = ebind (array_of array) (flat_reduce [])"

text \<open>
  \<^verbatim>\<open>Object.keys(list || []).length > 0 ? { [k]: flat(list) } : undefined\<close>, as a source of
  \<^verbatim>\<open>Object.assign\<close> (\<^verbatim>\<open>undefined\<close> contributes nothing).
\<close>

definition flat_part :: "string \<Rightarrow> jsval \<Rightarrow> error + obj" where
  "flat_part k list =
     (if own_entries (js_or list (JArr [])) \<noteq> []
      then ebind (flat list) (\<lambda>m. Inr [(k, JObj m)])
      else Inr [])"

text \<open>
  \<^verbatim>\<open>if (isRoot && required && !required.every((v) => typeof v === 'string')) throw ...\<close>
\<close>

definition root_check :: "bool \<Rightarrow> jsval \<Rightarrow> error + unit" where
  "root_check isRoot required =
     (if isRoot \<and> truthy required
      then ebind (array_of required)
        (\<lambda>vs. if list_all typeof_string vs then Inr () else Inl FluentSchemaError)
      else Inr ())"

text \<open>
  \<^verbatim>\<open>required && required.length > 0 ? { required } : undefined\<close>. Arrays and strings have
  a \<^verbatim>\<open>length\<close>; numbers, booleans and symbols have none (\<^verbatim>\<open>undefined > 0\<close> is false);
  an object may own a property of that name.
\<close>

fun length_positive :: "jsval \<Rightarrow> error + bool" where
  "length_positive (JArr xs) = Inr (xs \<noteq> [])"
| "length_positive (JStr s) = Inr (s \<noteq> [])"
| "length_positive (JObj kvs) =
     (case obj_get kvs ''length'' of
        JNum n \<Rightarrow> Inr (0 < n)
      | JBool b \<Rightarrow> Inr b
      | JUndef \<Rightarrow> Inr False
      | JNull \<Rightarrow> Inr False
      | REQUIRED \<Rightarrow> Inl TypeError
      | _ \<Rightarrow> Inl NotModelled)"
| "length_positive _ = Inr False"

definition required_part :: "jsval \<Rightarrow> error + obj" where
  "required_part required =
     (if truthy required
      then ebind (length_positive required)
        (\<lambda>p. Inr (if p then [(''required'', required)] else []))
      else Inr [])"

text \<open>\<^verbatim>\<open>schema.if ? { if: schema.if } : undefined\<close>\<close>

definition truthy_part :: "string \<Rightarrow> jsval \<Rightarrow> obj" where
  "truthy_part k v = (if truthy v then [(k, v)] else [])"

text \<open>
  \<^verbatim>\<open>valueOf: ({ isRoot } = { isRoot: true }) => {
    const { properties, definitions, required, $schema, ...rest } = schema
    if (isRoot && required && !required.every((v) => typeof v === 'string')) throw ...
    return Object.assign(
      $schema ? { $schema } : {},
      Object.keys(definitions || []).length > 0 ? { definitions: flat(definitions) } : undefined,
      { ...omit(rest, ['if', 'then', 'else']) },
      Object.keys(properties || []).length > 0 ? { properties: flat(properties) } : undefined,
      required && required.length > 0 ? { required } : undefined,
      schema.if ? { if: schema.if } : undefined,
      schema.then ? { then: schema.then } : undefined,
      schema.else ? { else: schema.else } : undefined) }\<close>
  \<open>valueOf b True\<close> is \<^verbatim>\<open>b.valueOf()\<close>, \<open>valueOf b False\<close> is
  \<^verbatim>\<open>b.valueOf({ isRoot: false })\<close>. The list returned is the JavaScript object, its keys
  in their order, when no root key of the state is an array index or \<^verbatim>\<open>__proto__\<close> (see
  the boundaries of the model).
\<close>

definition schema_rest :: "obj \<Rightarrow> obj" where
  "schema_rest sch =
     obj_del ''$schema'' (obj_del ''required'' (obj_del ''definitions'' (obj_del ''properties'' sch)))"

definition valueOf_schema :: "obj \<Rightarrow> bool \<Rightarrow> error + obj" where
  "valueOf_schema sch isRoot =
     (let properties = obj_get sch ''properties'';
          definitions = obj_get sch ''definitions'';
          required = obj_get sch ''required'';
          dschema = obj_get sch ''$schema'';
          rest = schema_rest sch
      in ebind (root_check isRoot required) (\<lambda>_.
         ebind (flat_part ''definitions'' definitions) (\<lambda>ds.
         ebind (flat_part ''properties'' properties) (\<lambda>ps.
         ebind (required_part required) (\<lambda>rq.
           Inr (foldl obj_assign (truthy_part ''$schema'' dschema)
                  [ds, omit rest [''if'', ''then'', ''else''], ps, rq,
                   truthy_part ''if'' (obj_get sch ''if''),
                   truthy_part ''then'' (obj_get sch ''then''),
                   truthy_part ''else'' (obj_get sch ''else'')]))))))"

definition valueOf :: "builder \<Rightarrow> bool \<Rightarrow> error + obj" where
  "valueOf b isRoot = valueOf_schema (base_schema b) isRoot"

text \<open>\<^verbatim>\<open>_getState: () => schema\<close>\<close>

definition getState :: "builder \<Rightarrow> obj" where
  "getState b = base_schema b"


section \<open>Embedding a sub-schema\<close>

text \<open>
  \<^verbatim>\<open>const hasCombiningKeywords = attributes =>
    attributes.allOf || attributes.anyOf || attributes.oneOf || attributes.not\<close>
\<close>

definition hasCombiningKeywords :: "obj \<Rightarrow> jsval" where
  "hasCombiningKeywords attributes =
     js_or (obj_get attributes ''allOf'')
       (js_or (obj_get attributes ''anyOf'')
          (js_or (obj_get attributes ''oneOf'') (obj_get attributes ''not'')))"

text \<open>
  \<^verbatim>\<open>const patchIdsWithParentId = ({ schema, generateIds, parentId }) => {
    const properties = Object.entries(schema.properties || {})
    if (properties.length === 0) return schema
    return { ...schema,
      properties: properties.reduce((memo, [key, props]) => {
        const $id = props.$id || (generateIds ? `#properties/${key}` : undefined)
        return { ...memo,
          [key]: { ...props,
            $id: generateIds && parentId ? `${parentId}/${$id.replace('#', '')}` : $id } }
      }, {}) } }\<close>
\<close>

definition patch_id :: "bool \<Rightarrow> jsval \<Rightarrow> string \<Rightarrow> jsval \<Rightarrow> error + jsval" where
  "patch_id gen parentId key props =
     (if props = JUndef \<or> props = JNull then Inl TypeError
      else let did = js_or (get props ''$id'')
                       (if gen then JStr (''#properties/'' @ key) else JUndef)
           in if gen \<and> truthy parentId
              then ebind (to_str parentId) (\<lambda>p.
                   ebind (replace_hash did) (\<lambda>r. Inr (JStr (p @ ''/'' @ r))))
              else Inr did)"

definition patch_step :: "bool \<Rightarrow> jsval \<Rightarrow> obj \<Rightarrow> string \<times> jsval \<Rightarrow> error + obj" where
  "patch_step gen parentId memo entry =
     (case entry of (key, props) \<Rightarrow>
        ebind (patch_id gen parentId key props)
          (\<lambda>did. Inr (obj_set key (JObj (obj_set ''$id'' did (own_entries props))) memo)))"

fun patch_reduce :: "bool \<Rightarrow> jsval \<Rightarrow> obj \<Rightarrow> obj \<Rightarrow> error + obj" where
  "patch_reduce gen parentId memo [] = Inr memo"
| "patch_reduce gen parentId memo (entry # properties) =
     ebind (patch_step gen parentId memo entry)
       (\<lambda>memo'. patch_reduce gen parentId memo' properties)"

definition patchIdsWithParentId :: "obj \<Rightarrow> bool \<Rightarrow> jsval \<Rightarrow> error + obj" where
  "patchIdsWithParentId sch gen parentId =
     (let properties = own_entries (js_or (obj_get sch ''properties'') (JObj []))
      in if properties = [] then Inr sch
         else ebind (patch_reduce gen parentId [] properties)
                (\<lambda>ps. Inr (obj_set ''properties'' (JObj ps) sch)))"

text \<open>
  \<^verbatim>\<open>const appendRequired = ({ attributes: { name, required, ...attributes }, schema }) => {
    const { schemaRequired, attributeRequired } = (required || []).reduce(
      (memo, item) => item === REQUIRED
        ? { ...memo, schemaRequired: [...memo.schemaRequired, name] }
        : { ...memo, attributeRequired: [...memo.attributeRequired, item] },
      { schemaRequired: [], attributeRequired: [] })
    const patchedRequired = [...schema.required, ...schemaRequired]
    if (!isUniq(patchedRequired)) throw new FluentSchemaError(...)
    const schemaPatched = { ...schema, required: patchedRequired }
    const attributesPatched = { ...attributes, required: attributeRequired }
    return [schemaPatched, attributesPatched] }\<close>
\<close>

definition required_step :: "jsval \<Rightarrow> jsval list \<times> jsval list \<Rightarrow> jsval \<Rightarrow> jsval list \<times> jsval list" where
  "required_step name memo item =
     (case memo of (schemaRequired, attributeRequired) \<Rightarrow>
        if item = REQUIRED then (schemaRequired @ [name], attributeRequired)
        else (schemaRequired, attributeRequired @ [item]))"

definition appendRequired :: "obj \<Rightarrow> obj \<Rightarrow> error + obj \<times> obj" where
  "appendRequired attrs sch =
     (let name = obj_get attrs ''name'';
          required = obj_get attrs ''required'';
          attributes = obj_del ''required'' (obj_del ''name'' attrs)
      in ebind (array_of (js_or required (JArr []))) (\<lambda>items.
           case foldl (required_step name) ([], []) items of
             (schemaRequired, attributeRequired) \<Rightarrow>
               ebind (spread (obj_get sch ''required'')) (\<lambda>own.
                 let patchedRequired = own @ schemaRequired
                 in if \<not> isUniq patchedRequired then Inl FluentSchemaError
                    else Inr (obj_set ''required'' (JArr patchedRequired) sch,
                              obj_set ''required'' (JArr attributeRequired) attributes))))"

text \<open>
  \<^verbatim>\<open>const isFluentSchema = obj => obj && obj.isFluentSchema\<close>: every builder has the
  property \<^verbatim>\<open>isFluentSchema: true\<close>.
\<close>

fun isFluentSchema :: "arg \<Rightarrow> bool" where
  "isFluentSchema (Fluent b) = True"
| "isFluentSchema (Plain v) = (truthy v \<and> truthy (get v ''isFluentSchema''))"

text \<open>
  \<^verbatim>\<open>props.valueOf({ isRoot })\<close>: the method of a builder; on a plain object
  \<^verbatim>\<open>Object.prototype.valueOf\<close>, which returns the object, unless the object owns a
  property of that name, which is not a function. A primitive or an array returns
  itself.
\<close>

fun arg_valueOf :: "arg \<Rightarrow> bool \<Rightarrow> error + jsval" where
  "arg_valueOf (Fluent b) isRoot = ebind (valueOf b isRoot) (\<lambda>v. Inr (JObj v))"
| "arg_valueOf (Plain JUndef) isRoot = Inl TypeError"
| "arg_valueOf (Plain JNull) isRoot = Inl TypeError"
| "arg_valueOf (Plain (JObj kvs)) isRoot =
     (if ''valueOf'' \<in> set (map fst kvs) then Inl TypeError else Inr (JObj kvs))"
| "arg_valueOf (Plain v) isRoot = Inr v"

text \<open>\<^verbatim>\<open>props.def\<close>: builders have no such property.\<close>

fun arg_def :: "arg \<Rightarrow> error + jsval" where
  "arg_def (Fluent b) = Inr JUndef"
| "arg_def (Plain JUndef) = Inl TypeError"
| "arg_def (Plain JNull) = Inl TypeError"
| "arg_def (Plain v) = Inr (get v ''def'')"

text \<open>
  The reduction at the end of \<^verbatim>\<open>prop\<close>:
  \<^verbatim>\<open>Object.entries({ ...attributes, $id, type }).reduce((memo, [key, value]) =>
      key === '$schema' || key === 'def' || value === undefined ||
      (Array.isArray(value) && value.length === 0 && key !== 'default')
        ? memo : { ...memo, [key]: value }, {})\<close>
\<close>

definition stripped :: "string \<Rightarrow> jsval \<Rightarrow> bool" where
  "stripped key v =
     (key = ''$schema'' \<or> key = ''def'' \<or> v = JUndef \<or> (v = JArr [] \<and> key \<noteq> ''default''))"

definition strip :: "obj \<Rightarrow> obj" where
  "strip ob = foldl (\<lambda>memo (key, v). if stripped key v then memo else obj_set key v memo) [] ob"

text \<open>
  \<^verbatim>\<open>prop: (name, props = {}) => {
    if (Array.isArray(props) || typeof props !== 'object') throw new FluentSchemaError(...)
    const target = props.def ? 'definitions' : 'properties'
    let attributes = props.valueOf({ isRoot: false })
    const $id = attributes.$id || (options.generateIds ? `#${target}/${name}` : undefined)
    if (isFluentSchema(props)) {
      attributes = patchIdsWithParentId({ schema: attributes, parentId: $id, ...options })
      const [schemaPatched, attributesPatched] =
        appendRequired({ schema, attributes: { ...attributes, name } })
      schema = schemaPatched
      attributes = attributesPatched }
    const type = hasCombiningKeywords(attributes) ? undefined : attributes.type
    const $ref = attributes.$ref
    attributes = Object.entries({ ...attributes, $id, type }).reduce(..., {})
    return ObjectSchema({
      schema: { ...schema,
        [target]: [...schema[target],
                   $ref ? { name, $ref } : Object.assign({}, { name }, attributes)] },
      ...options }) }\<close>

  The three parts below are the argument check up to \<^verbatim>\<open>$id\<close>, the branch of a fluent
  argument, and the construction of the entry. The message of the error of the first
  part converts \<open>name\<close> to a string, which a symbol refuses.
\<close>

definition prop_default :: "arg \<Rightarrow> arg" where
  "prop_default props = (case props of Plain JUndef \<Rightarrow> Plain (JObj []) | _ \<Rightarrow> props)"

fun prop_rejects :: "arg \<Rightarrow> bool" where
  "prop_rejects (Fluent b) = False"
| "prop_rejects (Plain v) = (isArray v \<or> \<not> typeof_object v)"

definition prop_head :: "bool \<Rightarrow> jsval \<Rightarrow> arg \<Rightarrow> error + string \<times> obj \<times> jsval" where
  "prop_head gen name props =
     (if prop_rejects props then ebind (to_str name) (\<lambda>_. Inl FluentSchemaError)
      else ebind (arg_def props) (\<lambda>d.
           let target = (if truthy d then ''definitions'' else ''properties'')
           in ebind (arg_valueOf props False) (\<lambda>v.
              let attributes = own_entries v
              in if truthy (obj_get attributes ''$id'')
                 then Inr (target, attributes, obj_get attributes ''$id'')
                 else if gen
                 then ebind (to_str name) (\<lambda>n.
                        Inr (target, attributes, JStr (''#'' @ target @ ''/'' @ n)))
                 else Inr (target, attributes, JUndef))))"

definition prop_fluent :: "bool \<Rightarrow> obj \<Rightarrow> jsval \<Rightarrow> obj \<Rightarrow> jsval \<Rightarrow> error + obj \<times> obj" where
  "prop_fluent gen sch name attributes did =
     ebind (patchIdsWithParentId attributes gen did) (\<lambda>patched.
       appendRequired (obj_set ''name'' name patched) sch)"

definition prop_entry :: "jsval \<Rightarrow> obj \<Rightarrow> jsval \<Rightarrow> jsval" where
  "prop_entry name attributes did =
     (let type = (if truthy (hasCombiningKeywords attributes) then JUndef
                  else obj_get attributes ''type'');
          dref = obj_get attributes ''$ref'';
          attributes' = strip (obj_set ''type'' type (obj_set ''$id'' did attributes))
      in if truthy dref then JObj [(''name'', name), (''$ref'', dref)]
         else JObj (obj_assign [(''name'', name)] attributes'))"

definition prop_tail :: "obj \<Rightarrow> options \<Rightarrow> jsval \<Rightarrow> string \<Rightarrow> obj \<Rightarrow> jsval \<Rightarrow> error + builder" where
  "prop_tail sch os name target attributes did =
     (let entry = prop_entry name attributes did
      in ebind (spread (obj_get sch target)) (\<lambda>entries.
           Inr (construct ObjectSchema (obj_set target (JArr (entries @ [entry])) sch) os)))"

text \<open>
  \<open>prop_st b name props\<close> is the call \<^verbatim>\<open>b.prop(name, props)\<close>: the receiver after the call,
  whose variable \<^verbatim>\<open>schema\<close> the fluent branch has assigned, and the outcome.
\<close>

definition prop_st :: "builder \<Rightarrow> jsval \<Rightarrow> arg \<Rightarrow> builder \<times> (error + builder)" where
  "prop_st b name props0 =
     (let props = prop_default props0
      in case prop_head (generateIds (opts b)) name props of
           Inl e \<Rightarrow> (b, Inl e)
         | Inr (target, attributes, did) \<Rightarrow>
             if isFluentSchema props
             then (case prop_fluent (generateIds (opts b)) (schema b) name attributes did of
                     Inl e \<Rightarrow> (b, Inl e)
                   | Inr (schemaPatched, attributesPatched) \<Rightarrow>
                       (b\<lparr>schema := schemaPatched\<rparr>,
                        prop_tail schemaPatched (opts b) name target attributesPatched did))
             else (b, prop_tail (schema b) (opts b) name target attributes did))"

definition ObjectSchema_prop :: "builder \<Rightarrow> jsval \<Rightarrow> arg \<Rightarrow> error + builder" where
  "ObjectSchema_prop b name props = snd (prop_st b name props)"

text \<open>
  \<^verbatim>\<open>definition: (name, props = {}) =>
    ObjectSchema({ schema, ...options }).prop(name, {
      ...props.valueOf({ isRoot: false }), def: true })\<close>
\<close>

definition ObjectSchema_definition :: "builder \<Rightarrow> jsval \<Rightarrow> arg \<Rightarrow> error + builder" where
  "ObjectSchema_definition b name props =
     ebind (arg_valueOf (prop_default props) False) (\<lambda>v.
       ObjectSchema_prop (construct ObjectSchema (schema b) (opts b)) name
         (Plain (JObj (obj_set ''def'' (JBool True) (own_entries v)))))"


section \<open>Attribute targeting\<close>

text \<open>
  \<^verbatim>\<open>options.factory({ schema, ...options }).prop(name, ...)\<close>: of the factories modelled,
  only \<^verbatim>\<open>ObjectSchema\<close> returns an object with a method \<^verbatim>\<open>prop\<close>.
\<close>

definition call_prop :: "builder \<Rightarrow> jsval \<Rightarrow> arg \<Rightarrow> error + builder" where
  "call_prop b name props =
     (if made_by b = ObjectSchema then ObjectSchema_prop b name props else Inl TypeError)"

text \<open>
  \<^verbatim>\<open>const setAttribute = ({ schema, ...options }, attribute) => {
    const [key, value] = attribute
    const currentProp = last(schema.properties)
    if (currentProp) {
      const { name, ...props } = currentProp
      return options.factory({ schema, ...options }).prop(name, { [key]: value, ...props }) }
    return options.factory({ schema: { ...schema, [key]: value }, ...options }) }\<close>
\<close>

definition setAttribute :: "obj \<Rightarrow> options \<Rightarrow> string \<Rightarrow> jsval \<Rightarrow> error + builder" where
  "setAttribute sch os key v =
     ebind (last_of (obj_get sch ''properties'')) (\<lambda>currentProp.
       if truthy currentProp
       then let name = get currentProp ''name'';
                props = obj_del ''name'' (own_entries currentProp)
            in ebind (call_factory os sch) (\<lambda>b.
                 call_prop b name (Plain (JObj (obj_assign [(key, v)] props))))
       else call_factory os (obj_set key v sch))"

text \<open>
  \<^verbatim>\<open>const setRaw = ({ schema, ...options }, raw) => {
    const currentProp = last(schema.properties)
    if (currentProp) {
      const { name, ...props } = currentProp
      return options.factory({ schema, ...options }).prop(name, { ...raw, ...props }) }
    return options.factory({ schema: { ...schema, ...raw }, ...options }) }\<close>
\<close>

definition setRaw :: "obj \<Rightarrow> options \<Rightarrow> jsval \<Rightarrow> error + builder" where
  "setRaw sch os fragment =
     ebind (last_of (obj_get sch ''properties'')) (\<lambda>currentProp.
       if truthy currentProp
       then let name = get currentProp ''name'';
                props = obj_del ''name'' (own_entries currentProp)
            in ebind (call_factory os sch) (\<lambda>b.
                 call_prop b name (Plain (JObj (obj_assign (own_entries fragment) props))))
       else call_factory os (obj_assign sch (own_entries fragment)))"

section \<open>The methods of BaseSchema\<close>

text \<open>
  \<^verbatim>\<open>id: id => {
    if (!id) throw new FluentSchemaError(
      'id should not be an empty fragment <#> or an empty string <> (e.g. #myId)')
    return setAttribute({ schema, ...options }, ['$id', id, 'any']) }\<close>
\<close>

definition BaseSchema_id :: "builder \<Rightarrow> jsval \<Rightarrow> error + builder" where
  "BaseSchema_id b v =
     (if \<not> truthy v then Inl FluentSchemaError
      else setAttribute (base_schema b) (opts b) ''$id'' v)"

text \<open>
  \<^verbatim>\<open>title\<close>, \<^verbatim>\<open>description\<close>, \<^verbatim>\<open>ref\<close>, \<^verbatim>\<open>const\<close>, \<^verbatim>\<open>default\<close> and the private \<^verbatim>\<open>as\<close> pass
  their argument to \<^verbatim>\<open>setAttribute\<close> unchecked.
\<close>

definition title :: "builder \<Rightarrow> jsval \<Rightarrow> error + builder" where
  "title b v = setAttribute (base_schema b) (opts b) ''title'' v"


definition ref :: "builder \<Rightarrow> jsval \<Rightarrow> error + builder" where
  "ref b v = setAttribute (base_schema b) (opts b) ''$ref'' v"

definition const :: "builder \<Rightarrow> jsval \<Rightarrow> error + builder" where
  "const b v = setAttribute (base_schema b) (opts b) ''const'' v"

definition BaseSchema_default :: "builder \<Rightarrow> jsval \<Rightarrow> error + builder" where
  "BaseSchema_default b v = setAttribute (base_schema b) (opts b) ''default'' v"

definition BaseSchema_as :: "builder \<Rightarrow> jsval \<Rightarrow> error + builder" where
  "BaseSchema_as b type = setAttribute (base_schema b) (opts b) ''type'' type"

text \<open>\<^verbatim>\<open>examples\<close> and \<^verbatim>\<open>enum\<close>: \<^verbatim>\<open>if (!Array.isArray(values)) throw ...\<close>\<close>

definition examples :: "builder \<Rightarrow> jsval \<Rightarrow> error + builder" where
  "examples b v =
     (if \<not> isArray v then Inl FluentSchemaError
      else setAttribute (base_schema b) (opts b) ''examples'' v)"

definition BaseSchema_enum :: "builder \<Rightarrow> jsval \<Rightarrow> error + builder" where
  "BaseSchema_enum b v =
     (if \<not> isArray v then Inl FluentSchemaError
      else setAttribute (base_schema b) (opts b) ''enum'' v)"

text \<open>
  \<^verbatim>\<open>readOnly: isReadOnly => {
    const value = isReadOnly !== undefined ? isReadOnly : true
    return setAttribute({ schema, ...options }, ['readOnly', value, 'boolean']) }\<close>
  and the same for \<^verbatim>\<open>writeOnly\<close>; \<^verbatim>\<open>deprecated\<close> first has
  \<^verbatim>\<open>if (isDeprecated && !isBoolean(isDeprecated)) throw ...\<close>.
\<close>

definition or_true :: "jsval \<Rightarrow> jsval" where
  "or_true v = (if v \<noteq> JUndef then v else JBool True)"

fun isBoolean :: "jsval \<Rightarrow> bool" where
  "isBoolean (JBool b) = True"
| "isBoolean _ = False"

definition readOnly :: "builder \<Rightarrow> jsval \<Rightarrow> error + builder" where
  "readOnly b v = setAttribute (base_schema b) (opts b) ''readOnly'' (or_true v)"

definition writeOnly :: "builder \<Rightarrow> jsval \<Rightarrow> error + builder" where
  "writeOnly b v = setAttribute (base_schema b) (opts b) ''writeOnly'' (or_true v)"

definition deprecated :: "builder \<Rightarrow> jsval \<Rightarrow> error + builder" where
  "deprecated b v =
     (if truthy v \<and> \<not> isBoolean v then Inl FluentSchemaError
      else setAttribute (base_schema b) (opts b) ''deprecated'' (or_true v))"

text \<open>
  \<^verbatim>\<open>required: props => {
    const currentProp = last(schema.properties)
    const required = Array.isArray(props)
      ? [...schema.required, ...props]
      : currentProp ? [...schema.required, currentProp.name] : [REQUIRED]
    if (!isUniq(required)) throw new FluentSchemaError(...)
    return options.factory({ schema: { ...schema, required }, ...options }) }\<close>
  \<open>required b JUndef\<close> is the call without argument.
\<close>

definition required_list :: "obj \<Rightarrow> jsval \<Rightarrow> error + jsval list" where
  "required_list sch props =
     ebind (last_of (obj_get sch ''properties'')) (\<lambda>currentProp.
       case props of
         JArr names \<Rightarrow> ebind (spread (obj_get sch ''required'')) (\<lambda>own. Inr (own @ names))
       | _ \<Rightarrow>
           if truthy currentProp
           then ebind (spread (obj_get sch ''required''))
                  (\<lambda>own. Inr (own @ [get currentProp ''name'']))
           else Inr [REQUIRED])"

definition required :: "builder \<Rightarrow> jsval \<Rightarrow> error + builder" where
  "required b props =
     ebind (required_list (base_schema b) props) (\<lambda>req.
       if \<not> isUniq req then Inl FluentSchemaError
       else call_factory (opts b) (obj_set ''required'' (JArr req) (base_schema b)))"

text \<open>
  \<^verbatim>\<open>not: not => {
    if (!isFluentSchema(not)) throw new FluentSchemaError("'not' must be a BaseSchema")
    const notSchema = omit(not.valueOf(), ['$schema', 'definitions'])
    return BaseSchema({ schema: { ...schema,
        not: patchIdsWithParentId({ schema: notSchema, ...options, parentId: '#not' }) },
      ...options }) }\<close>
\<close>

definition clause_schema :: "arg \<Rightarrow> string list \<Rightarrow> error + obj" where
  "clause_schema a dropped =
     ebind (arg_valueOf a True) (\<lambda>v. Inr (omit (own_entries v) dropped))"

definition patch_clause :: "options \<Rightarrow> obj \<Rightarrow> string \<Rightarrow> error + jsval" where
  "patch_clause os sch parentId =
     ebind (patchIdsWithParentId sch (generateIds os) (JStr parentId))
       (\<lambda>patched. Inr (JObj patched))"

definition BaseSchema_not :: "builder \<Rightarrow> arg \<Rightarrow> error + builder" where
  "BaseSchema_not b a =
     (if \<not> isFluentSchema a then Inl FluentSchemaError
      else ebind (clause_schema a [''$schema'', ''definitions'']) (\<lambda>notSchema.
           ebind (patch_clause (opts b) notSchema ''#not'') (\<lambda>n.
             Inr (construct BaseSchema (obj_set ''not'' n (base_schema b)) (opts b)))))"

text \<open>
  \<^verbatim>\<open>ifThen: (ifClause, thenClause) => {
    if (!isFluentSchema(ifClause)) throw ...
    if (!isFluentSchema(thenClause)) throw ...
    const ifClauseSchema = omit(ifClause.valueOf(), ['$schema', 'definitions', 'type'])
    const thenClauseSchema = omit(thenClause.valueOf(), ['$schema', 'definitions', 'type'])
    return options.factory({ schema: { ...schema,
        if: patchIdsWithParentId({ schema: ifClauseSchema, ...options, parentId: '#if' }),
        then: patchIdsWithParentId({ schema: thenClauseSchema, ...options, parentId: '#then' }) },
      ...options }) }\<close>
  and \<^verbatim>\<open>ifThenElse\<close> with a third clause under \<^verbatim>\<open>else\<close>.
\<close>

definition ifThen :: "builder \<Rightarrow> arg \<Rightarrow> arg \<Rightarrow> error + builder" where
  "ifThen b ifClause thenClause =
     (if \<not> isFluentSchema ifClause \<or> \<not> isFluentSchema thenClause then Inl FluentSchemaError
      else ebind (clause_schema ifClause [''$schema'', ''definitions'', ''type'']) (\<lambda>ifClauseSchema.
           ebind (clause_schema thenClause [''$schema'', ''definitions'', ''type'']) (\<lambda>thenClauseSchema.
           ebind (patch_clause (opts b) ifClauseSchema ''#if'') (\<lambda>i.
           ebind (patch_clause (opts b) thenClauseSchema ''#then'') (\<lambda>t.
             call_factory (opts b)
               (obj_set ''then'' t (obj_set ''if'' i (base_schema b))))))))"

definition ifThenElse :: "builder \<Rightarrow> arg \<Rightarrow> arg \<Rightarrow> arg \<Rightarrow> error + builder" where
  "ifThenElse b ifClause thenClause elseClause =
     (if \<not> isFluentSchema ifClause \<or> \<not> isFluentSchema thenClause
         \<or> \<not> isFluentSchema elseClause then Inl FluentSchemaError
      else ebind (clause_schema ifClause [''$schema'', ''definitions'', ''type'']) (\<lambda>ifClauseSchema.
           ebind (clause_schema thenClause [''$schema'', ''definitions'', ''type'']) (\<lambda>thenClauseSchema.
           ebind (clause_schema elseClause [''$schema'', ''definitions'', ''type'']) (\<lambda>elseClauseSchema.
           ebind (patch_clause (opts b) ifClauseSchema ''#if'') (\<lambda>i.
           ebind (patch_clause (opts b) thenClauseSchema ''#then'') (\<lambda>t.
           ebind (patch_clause (opts b) elseClauseSchema ''#else'') (\<lambda>e.
             call_factory (opts b)
               (obj_set ''else'' e (obj_set ''then'' t (obj_set ''if'' i (base_schema b)))))))))))"

text \<open>
  \<^verbatim>\<open>const setComposeType = ({ prop, schemas, schema, options }) => {
    if (!(Array.isArray(schemas) && schemas.every(v => isFluentSchema(v)))) throw ...
    const values = schemas.map(schema => {
      const { $schema, ...props } = schema.valueOf({ isRoot: false })
      return props })
    return options.factory({ schema: { ...schema, [prop]: values }, ...options }) }\<close>
  The argument \<open>schemas\<close> is the list of the elements of an array.
\<close>

fun compose_values :: "arg list \<Rightarrow> error + jsval list" where
  "compose_values [] = Inr []"
| "compose_values (a # schemas) =
     ebind (arg_valueOf a False) (\<lambda>v.
     ebind (compose_values schemas) (\<lambda>vs.
       Inr (JObj (obj_del ''$schema'' (own_entries v)) # vs)))"

definition setComposeType :: "string \<Rightarrow> arg list \<Rightarrow> obj \<Rightarrow> options \<Rightarrow> error + builder" where
  "setComposeType key schemas sch os =
     (if \<not> list_all isFluentSchema schemas then Inl FluentSchemaError
      else ebind (compose_values schemas) (\<lambda>vs.
             call_factory os (obj_set key (JArr vs) sch)))"

definition anyOf :: "builder \<Rightarrow> arg list \<Rightarrow> error + builder" where
  "anyOf b schemas = setComposeType ''anyOf'' schemas (base_schema b) (opts b)"

definition allOf :: "builder \<Rightarrow> arg list \<Rightarrow> error + builder" where
  "allOf b schemas = setComposeType ''allOf'' schemas (base_schema b) (opts b)"

definition oneOf :: "builder \<Rightarrow> arg list \<Rightarrow> error + builder" where
  "oneOf b schemas = setComposeType ''oneOf'' schemas (base_schema b) (opts b)"

text \<open>\<^verbatim>\<open>raw: fragment => setRaw({ schema, ...options }, fragment)\<close>\<close>

definition raw :: "builder \<Rightarrow> jsval \<Rightarrow> error + builder" where
  "raw b fragment = setRaw (base_schema b) (opts b) fragment"


section \<open>The methods of the typed builders\<close>

text \<open>
  The setters of \<^verbatim>\<open>StringSchema\<close>, \<^verbatim>\<open>NumberSchema\<close> (and \<^verbatim>\<open>IntegerSchema\<close>, which has
  the same methods), \<^verbatim>\<open>ObjectSchema\<close> and \<^verbatim>\<open>ArraySchema\<close> check their argument and call
  \<^verbatim>\<open>setAttribute({ schema, ...options }, [keyword, value])\<close> on the variable \<^verbatim>\<open>schema\<close>
  of their own factory. \<^verbatim>\<open>Number.isInteger\<close> holds of every number of the model, so
  the second check of the numeric setters,
  \<^verbatim>\<open>schema.type === 'integer' && !Number.isInteger(min)\<close>, never fires here.
\<close>

fun isNumber :: "jsval \<Rightarrow> bool" where
  "isNumber (JNum n) = True"
| "isNumber _ = False"


definition integer_setter :: "string \<Rightarrow> builder \<Rightarrow> jsval \<Rightarrow> error + builder" where
  "integer_setter key b v =
     (if \<not> isNumber v then Inl FluentSchemaError
      else setAttribute (schema b) (opts b) key v)"


definition maxLength :: "builder \<Rightarrow> jsval \<Rightarrow> error + builder" where
  "maxLength = integer_setter ''maxLength''"


definition string_setter :: "string \<Rightarrow> builder \<Rightarrow> jsval \<Rightarrow> error + builder" where
  "string_setter key b v =
     (if \<not> typeof_string v then Inl FluentSchemaError
      else setAttribute (schema b) (opts b) key v)"

text \<open>\<^verbatim>\<open>pattern\<close> with a string argument (a regular expression is not a value of the model).\<close>

definition pattern :: "builder \<Rightarrow> jsval \<Rightarrow> error + builder" where
  "pattern = string_setter ''pattern''"

definition contentEncoding :: "builder \<Rightarrow> jsval \<Rightarrow> error + builder" where
  "contentEncoding = string_setter ''contentEncoding''"

definition contentMediaType :: "builder \<Rightarrow> jsval \<Rightarrow> error + builder" where
  "contentMediaType = string_setter ''contentMediaType''"

text \<open>
  \<^verbatim>\<open>minimum: min => {
    if (typeof min !== 'number') throw ...
    if (schema.type === 'integer' && !Number.isInteger(min)) throw ...
    return setAttribute({ schema, ...options }, ['minimum', min, 'number']) }\<close>
\<close>

definition number_setter :: "string \<Rightarrow> builder \<Rightarrow> jsval \<Rightarrow> error + builder" where
  "number_setter key b v =
     (if \<not> isNumber v then Inl FluentSchemaError
      else if obj_get (schema b) ''type'' = JStr ''integer'' \<and> \<not> isNumber v
      then Inl FluentSchemaError
      else setAttribute (schema b) (opts b) key v)"

definition minimum :: "builder \<Rightarrow> jsval \<Rightarrow> error + builder" where
  "minimum = number_setter ''minimum''"

definition exclusiveMinimum :: "builder \<Rightarrow> jsval \<Rightarrow> error + builder" where
  "exclusiveMinimum = number_setter ''exclusiveMinimum''"


definition exclusiveMaximum :: "builder \<Rightarrow> jsval \<Rightarrow> error + builder" where
  "exclusiveMaximum = number_setter ''exclusiveMaximum''"

definition multipleOf :: "builder \<Rightarrow> jsval \<Rightarrow> error + builder" where
  "multipleOf = number_setter ''multipleOf''"

definition maxProperties :: "builder \<Rightarrow> jsval \<Rightarrow> error + builder" where
  "maxProperties = integer_setter ''maxProperties''"

definition minProperties :: "builder \<Rightarrow> jsval \<Rightarrow> error + builder" where
  "minProperties = integer_setter ''minProperties''"

definition minItems :: "builder \<Rightarrow> jsval \<Rightarrow> error + builder" where
  "minItems = integer_setter ''minItems''"

definition maxItems :: "builder \<Rightarrow> jsval \<Rightarrow> error + builder" where
  "maxItems = integer_setter ''maxItems''"

definition uniqueItems :: "builder \<Rightarrow> jsval \<Rightarrow> error + builder" where
  "uniqueItems b v =
     (if \<not> isBoolean v then Inl FluentSchemaError
      else setAttribute (schema b) (opts b) ''uniqueItems'' v)"

text \<open>
  \<^verbatim>\<open>ObjectSchema.id\<close>:
  \<^verbatim>\<open>id: id => {
    if (!id) throw new FluentSchemaError(
      'id should not be an empty fragment <#> or an empty string <> (e.g. #myId)')
    return options.factory({ schema: { ...schema, $id: id }, ...options }) }\<close>
\<close>

definition ObjectSchema_id :: "builder \<Rightarrow> jsval \<Rightarrow> error + builder" where
  "ObjectSchema_id b v =
     (if \<not> truthy v then Inl FluentSchemaError
      else call_factory (opts b) (obj_set ''$id'' v (schema b)))"

text \<open>
  \<^verbatim>\<open>b.id(v)\<close>: the method of \<^verbatim>\<open>ObjectSchema\<close> replaces the one of \<^verbatim>\<open>BaseSchema\<close>; the
  object that \<^verbatim>\<open>NullSchema\<close> returns has the methods \<^verbatim>\<open>valueOf\<close>, \<^verbatim>\<open>raw\<close> and \<^verbatim>\<open>null\<close> only,
  so the call of its \<^verbatim>\<open>id\<close> is a TypeError.
\<close>

definition call_id :: "builder \<Rightarrow> jsval \<Rightarrow> error + builder" where
  "call_id b v =
     (if made_by b = ObjectSchema then ObjectSchema_id b v
      else if made_by b = NullSchema then Inl TypeError
      else BaseSchema_id b v)"

text \<open>
  \<^verbatim>\<open>additionalProperties: value => {
    if (typeof value === 'boolean') return setAttribute(..., ['additionalProperties', value])
    if (isFluentSchema(value)) {
      const { $schema, ...rest } = value.valueOf({ isRoot: false })
      return setAttribute(..., ['additionalProperties', { ...rest }]) }
    throw new FluentSchemaError(...) }\<close>
  and \<^verbatim>\<open>propertyNames\<close>, which takes a builder only.
\<close>

definition additionalProperties :: "builder \<Rightarrow> arg \<Rightarrow> error + builder" where
  "additionalProperties b a =
     (case a of
        Plain (JBool v) \<Rightarrow> setAttribute (schema b) (opts b) ''additionalProperties'' (JBool v)
      | _ \<Rightarrow>
          if isFluentSchema a
          then ebind (arg_valueOf a False) (\<lambda>v.
                 setAttribute (schema b) (opts b) ''additionalProperties''
                   (JObj (obj_del ''$schema'' (own_entries v))))
          else Inl FluentSchemaError)"

definition propertyNames :: "builder \<Rightarrow> arg \<Rightarrow> error + builder" where
  "propertyNames b a =
     (if \<not> isFluentSchema a then Inl FluentSchemaError
      else ebind (arg_valueOf a False) (\<lambda>v.
             setAttribute (schema b) (opts b) ''propertyNames''
               (JObj (omit (own_entries v) [''$schema'']))))"

text \<open>
  \<^verbatim>\<open>only: properties => ObjectSchema({
    schema: { ...omit(schema, ['$id', 'properties']),
      properties: schema.properties.filter(({ name }) => properties.includes(name)),
      required: schema.required.filter(p => properties.includes(p)) },
    ...options })\<close>
  and \<^verbatim>\<open>without\<close> with both tests negated. The argument is the list of the elements
  of an array.
\<close>

fun entry_names :: "jsval list \<Rightarrow> error + jsval list" where
  "entry_names [] = Inr []"
| "entry_names (p # ps) =
     (if p = JUndef \<or> p = JNull then Inl TypeError
      else ebind (entry_names ps) (\<lambda>ns. Inr (get p ''name'' # ns)))"

definition subset_of :: "bool \<Rightarrow> builder \<Rightarrow> jsval list \<Rightarrow> error + builder" where
  "subset_of keep b properties =
     ebind (array_of (obj_get (schema b) ''properties'')) (\<lambda>ps.
     ebind (entry_names ps) (\<lambda>ns.
     ebind (array_of (obj_get (schema b) ''required'')) (\<lambda>rs.
       Inr (construct ObjectSchema
              (obj_set ''required'' (JArr (filter (\<lambda>p. (p \<in> set properties) = keep) rs))
                 (obj_set ''properties''
                    (JArr (map fst (filter (\<lambda>(p, n). (n \<in> set properties) = keep) (zip ps ns))))
                    (omit (schema b) [''$id'', ''properties''])))
              (opts b)))))"

definition only :: "builder \<Rightarrow> jsval list \<Rightarrow> error + builder" where
  "only = subset_of True"

definition without :: "builder \<Rightarrow> jsval list \<Rightarrow> error + builder" where
  "without = subset_of False"

section \<open>The root factory and raw ingestion\<close>

text \<open>
  \<^verbatim>\<open>const initialState = { $schema: 'http://json-schema.org/draft-07/schema#',
    definitions: [], properties: [], required: [] }
  const S = ({ schema = initialState, ...options } =
             { generateIds: false, factory: BaseSchema }) => ({
    ...BaseSchema({ ...options, schema }),
    string: () => StringSchema({ ...options, schema, factory: StringSchema }).as('string'),
    ...
    object: baseSchema => ObjectSchema({ ...options,
      schema: baseSchema || schema, factory: ObjectSchema }).as('object'),
    null: () => NullSchema({ ...options, schema, factory: NullSchema }).null(),
    raw: fragment => RawSchema(fragment) })\<close>
  \<open>withOptions os\<close> is \<^verbatim>\<open>S.withOptions(os)\<close> with no \<^verbatim>\<open>schema\<close> among the options, and
  \<open>S_default\<close> is \<^verbatim>\<open>S()\<close>. \<^verbatim>\<open>object\<close> is called without argument.
\<close>

definition initialState :: obj where
  "initialState =
     [(''$schema'', JStr ''http://json-schema.org/draft-07/schema#''),
      (''definitions'', JArr []), (''properties'', JArr []), (''required'', JArr [])]"

definition withOptions :: "options \<Rightarrow> builder" where
  "withOptions os = construct S initialState os"

definition S_default :: builder where
  "S_default = withOptions \<lparr>generateIds = False, factory = Some BaseSchema\<rparr>"

definition select :: "kind \<Rightarrow> builder \<Rightarrow> builder" where
  "select k st = construct k (schema st) ((opts st)\<lparr>factory := Some k\<rparr>)"

definition S_string :: "builder \<Rightarrow> error + builder" where
  "S_string st = BaseSchema_as (select StringSchema st) (JStr ''string'')"

definition S_number :: "builder \<Rightarrow> error + builder" where
  "S_number st = BaseSchema_as (select NumberSchema st) (JStr ''number'')"

definition S_integer :: "builder \<Rightarrow> error + builder" where
  "S_integer st = BaseSchema_as (select IntegerSchema st) (JStr ''integer'')"

definition S_boolean :: "builder \<Rightarrow> error + builder" where
  "S_boolean st = BaseSchema_as (select BooleanSchema st) (JStr ''boolean'')"

definition S_array :: "builder \<Rightarrow> error + builder" where
  "S_array st = BaseSchema_as (select ArraySchema st) (JStr ''array'')"

definition S_object :: "builder \<Rightarrow> error + builder" where
  "S_object st = BaseSchema_as (select ObjectSchema st) (JStr ''object'')"

text \<open>\<^verbatim>\<open>null: () => setAttribute({ schema, ...options }, ['type', 'null'])\<close> of \<^verbatim>\<open>NullSchema\<close>.\<close>

definition S_null :: "builder \<Rightarrow> error + builder" where
  "S_null st =
     (let b = select NullSchema st in setAttribute (schema b) (opts b) ''type'' (JStr ''null''))"

text \<open>
  \<^verbatim>\<open>const toArray = obj =>
    obj && Object.entries(obj).map(([key, value]) => ({ name: key, ...value }))\<close>
\<close>

definition toArray :: "jsval \<Rightarrow> jsval" where
  "toArray ob =
     (if \<not> truthy ob then ob
      else JArr (map (\<lambda>(key, v). JObj (obj_assign [(''name'', JStr key)] (own_entries v)))
                   (own_entries ob)))"

text \<open>
  \<^verbatim>\<open>const RawSchema = (schema = {}) => {
    if (typeof schema !== 'object') throw new FluentSchemaError('A fragment must be a JSON object')
    const { type, definitions, properties, required, ...props } = schema
    switch (schema.type) {
      case 'string': { const schema = { type, ...props }
        return StringSchema({ schema, factory: StringSchema }) }
      case 'integer': ... return IntegerSchema({ schema, factory: NumberSchema })
      case 'number': ... return NumberSchema({ schema, factory: NumberSchema })
      case 'boolean': ... return BooleanSchema({ schema, factory: BooleanSchema })
      case 'object': { const schema = { type,
          definitions: toArray(definitions) || [],
          properties: toArray(properties) || [],
          required: required || [], ...props }
        return ObjectSchema({ schema, factory: ObjectSchema }) }
      case 'array': ... return ArraySchema({ schema, factory: ArraySchema })
      default: { const schema = { ...props }
        return BaseSchema({ schema, factory: BaseSchema }) } } }\<close>
  The options of the call hold a factory and no \<^verbatim>\<open>generateIds\<close>.
\<close>

definition raw_props :: "jsval \<Rightarrow> obj" where
  "raw_props sch =
     obj_del ''required'' (obj_del ''properties'' (obj_del ''definitions''
       (obj_del ''type'' (own_entries sch))))"

definition raw_typed :: "kind \<Rightarrow> kind \<Rightarrow> jsval \<Rightarrow> builder" where
  "raw_typed k f sch =
     construct k (obj_assign [(''type'', get sch ''type'')] (raw_props sch))
       \<lparr>generateIds = False, factory = Some f\<rparr>"

definition raw_object :: "jsval \<Rightarrow> builder" where
  "raw_object sch =
     construct ObjectSchema
       (obj_assign
          [(''type'', get sch ''type''),
           (''definitions'', js_or (toArray (get sch ''definitions'')) (JArr [])),
           (''properties'', js_or (toArray (get sch ''properties'')) (JArr [])),
           (''required'', js_or (get sch ''required'') (JArr []))]
          (raw_props sch))
       \<lparr>generateIds = False, factory = Some ObjectSchema\<rparr>"

definition RawSchema :: "jsval \<Rightarrow> error + builder" where
  "RawSchema schema0 =
     (let sch = (if schema0 = JUndef then JObj [] else schema0)
      in if \<not> typeof_object sch then Inl FluentSchemaError
         else if sch = JNull then Inl TypeError
         else let type = get sch ''type''
              in if type = JStr ''string'' then Inr (raw_typed StringSchema StringSchema sch)
                 else if type = JStr ''integer'' then Inr (raw_typed IntegerSchema NumberSchema sch)
                 else if type = JStr ''number'' then Inr (raw_typed NumberSchema NumberSchema sch)
                 else if type = JStr ''boolean'' then Inr (raw_typed BooleanSchema BooleanSchema sch)
                 else if type = JStr ''object'' then Inr (raw_object sch)
                 else if type = JStr ''array'' then Inr (raw_typed ArraySchema ArraySchema sch)
                 else Inr (construct BaseSchema (raw_props sch)
                             \<lparr>generateIds = False, factory = Some BaseSchema\<rparr>))"

text \<open>\<^verbatim>\<open>S.raw(fragment)\<close> is \<^verbatim>\<open>RawSchema(fragment)\<close>.\<close>

definition S_raw :: "builder \<Rightarrow> jsval \<Rightarrow> error + builder" where
  "S_raw st fragment = RawSchema fragment"

text \<open>
  The methods of the package:
  \<^verbatim>\<open>string: () => S().string()\<close>, \<^verbatim>\<open>object: () => S().object()\<close>, ...,
  \<^verbatim>\<open>raw: fragment => S().raw(fragment)\<close>.
\<close>

definition FluentJSONSchema_string :: "error + builder" where
  "FluentJSONSchema_string = S_string S_default"

definition FluentJSONSchema_number :: "error + builder" where
  "FluentJSONSchema_number = S_number S_default"

definition FluentJSONSchema_integer :: "error + builder" where
  "FluentJSONSchema_integer = S_integer S_default"

definition FluentJSONSchema_boolean :: "error + builder" where
  "FluentJSONSchema_boolean = S_boolean S_default"

definition FluentJSONSchema_array :: "error + builder" where
  "FluentJSONSchema_array = S_array S_default"

definition FluentJSONSchema_object :: "error + builder" where
  "FluentJSONSchema_object = S_object S_default"

definition FluentJSONSchema_null :: "error + builder" where
  "FluentJSONSchema_null = S_null S_default"

definition FluentJSONSchema_raw :: "jsval \<Rightarrow> error + builder" where
  "FluentJSONSchema_raw fragment = S_raw S_default fragment"

section \<open>The data model and the serialization in the words of the specification\<close>

text \<open>
  The specification describes a builder state with \<^verbatim>\<open>properties\<close> and \<^verbatim>\<open>definitions\<close> as
  ordered sequences of named entries and \<^verbatim>\<open>required\<close> as a sequence. A named entry is an
  object whose \<^verbatim>\<open>name\<close> is a string. In a well-formed state the keys of the state are
  distinct (it is a JavaScript object), each of the two lists is absent or an array of
  named entries, and \<^verbatim>\<open>required\<close> is absent or an array.
\<close>

fun named_entry :: "jsval \<Rightarrow> bool" where
  "named_entry (JObj kvs) = typeof_string (obj_get kvs ''name'')"
| "named_entry _ = False"

fun entry_list :: "jsval \<Rightarrow> bool" where
  "entry_list JUndef = True"
| "entry_list (JArr es) = list_all named_entry es"
| "entry_list _ = False"

fun absent_or_array :: "jsval \<Rightarrow> bool" where
  "absent_or_array JUndef = True"
| "absent_or_array (JArr xs) = True"
| "absent_or_array _ = False"

definition wf_state :: "obj \<Rightarrow> bool" where
  "wf_state s =
     (distinct (map fst s) \<and> entry_list (obj_get s ''definitions'')
      \<and> entry_list (obj_get s ''properties'') \<and> absent_or_array (obj_get s ''required''))"

text \<open>
  Flattening a list of named entries to a mapping, as the specification words it: the
  keys are the names, in the order of their first entries; the value of a name is the
  object of the remaining fields of the last entry of that name.
\<close>

definition entry_name :: "jsval \<Rightarrow> string" where
  "entry_name e = (case get e ''name'' of JStr n \<Rightarrow> n | _ \<Rightarrow> [])"

definition entry_rest :: "jsval \<Rightarrow> jsval" where
  "entry_rest e = JObj (obj_del ''name'' (own_entries e))"

definition first_occurrences :: "string list \<Rightarrow> string list" where
  "first_occurrences ns = rev (remdups (rev ns))"

definition flatten_spec :: "jsval list \<Rightarrow> obj" where
  "flatten_spec es =
     map (\<lambda>n. (n, entry_rest (last (filter (\<lambda>e. entry_name e = n) es))))
       (first_occurrences (map entry_name es))"

text \<open>
  The parts of the output of \<^verbatim>\<open>valueOf\<close>: a flattened list unless it is empty, the
  required list unless it is empty, and the other root attributes.
\<close>

definition flattened_part :: "string \<Rightarrow> jsval \<Rightarrow> obj" where
  "flattened_part k list =
     (case list of JArr (e # es) \<Rightarrow> [(k, JObj (flatten_spec (e # es)))] | _ \<Rightarrow> [])"

definition nonempty_part :: "string \<Rightarrow> jsval \<Rightarrow> obj" where
  "nonempty_part k list = (case list of JArr (x # xs) \<Rightarrow> [(k, list)] | _ \<Rightarrow> [])"

definition other_attributes :: "obj \<Rightarrow> obj" where
  "other_attributes s =
     filter (\<lambda>kv. fst kv \<notin> set [''properties'', ''definitions'', ''required'', ''$schema'',
                                  ''if'', ''then'', ''else'']) s"

text \<open>
  The output of \<^verbatim>\<open>valueOf\<close> in the words of the specification: \<^verbatim>\<open>$schema\<close> if present, the
  flattened definitions unless they are empty, the other root attributes except
  \<^verbatim>\<open>if\<close>, \<^verbatim>\<open>then\<close> and \<^verbatim>\<open>else\<close>, the flattened properties unless they are empty, the
  required list unless it is empty, and \<^verbatim>\<open>if\<close>, \<^verbatim>\<open>then\<close>, \<^verbatim>\<open>else\<close>, each omitted if absent.
  A key is present when the state has it.
\<close>

definition present_part :: "string \<Rightarrow> obj \<Rightarrow> obj" where
  "present_part k s = (case map_of s k of None \<Rightarrow> [] | Some v \<Rightarrow> [(k, v)])"

definition valueOf_claimed :: "obj \<Rightarrow> obj" where
  "valueOf_claimed s =
     present_part ''$schema'' s
     @ flattened_part ''definitions'' (obj_get s ''definitions'')
     @ other_attributes s
     @ flattened_part ''properties'' (obj_get s ''properties'')
     @ nonempty_part ''required'' (obj_get s ''required'')
     @ present_part ''if'' s
     @ present_part ''then'' s
     @ present_part ''else'' s"

text \<open>
  The same output with the test of the amended claim: \<^verbatim>\<open>$schema\<close>, \<^verbatim>\<open>if\<close>, \<^verbatim>\<open>then\<close> and
  \<^verbatim>\<open>else\<close> are in the output when their value is truthy. \<open>truthy_in s k\<close> says that the
  two tests agree on the key \<open>k\<close> of the state \<open>s\<close>.
\<close>

definition valueOf_amended :: "obj \<Rightarrow> obj" where
  "valueOf_amended s =
     truthy_part ''$schema'' (obj_get s ''$schema'')
     @ flattened_part ''definitions'' (obj_get s ''definitions'')
     @ other_attributes s
     @ flattened_part ''properties'' (obj_get s ''properties'')
     @ nonempty_part ''required'' (obj_get s ''required'')
     @ truthy_part ''if'' (obj_get s ''if'')
     @ truthy_part ''then'' (obj_get s ''then'')
     @ truthy_part ''else'' (obj_get s ''else'')"

definition truthy_in :: "obj \<Rightarrow> string \<Rightarrow> bool" where
  "truthy_in s k = (case map_of s k of None \<Rightarrow> True | Some v \<Rightarrow> truthy v)"

text \<open>
  The keys for which the order of the keys of an object is the order in which they were
  added: a JavaScript engine enumerates the keys that are array indices before the
  others, in ascending order, and \<^verbatim>\<open>Object.assign\<close> does not copy an own property
  \<^verbatim>\<open>__proto__\<close>. A key made of decimal digits only is taken to be an array index. In an
  ordinary state no root key and no name of an entry is such a key.
\<close>

definition ordinary_key :: "string \<Rightarrow> bool" where
  "ordinary_key k =
     (k \<noteq> ''__proto__'' \<and> (k = [] \<or> \<not> list_all (\<lambda>c. c \<in> set ''0123456789'') k))"

fun ordinary_names :: "jsval \<Rightarrow> bool" where
  "ordinary_names (JArr es) = list_all (\<lambda>e. ordinary_key (entry_name e)) es"
| "ordinary_names _ = True"

definition ordinary_state :: "obj \<Rightarrow> bool" where
  "ordinary_state s =
     (list_all ordinary_key (map fst s) \<and> ordinary_names (obj_get s ''definitions'')
      \<and> ordinary_names (obj_get s ''properties''))"

text \<open>
  The first step of \<^verbatim>\<open>valueOf\<close> in the specification: at the root, a required entry
  that is not a plain string is an error.
\<close>

definition unresolved_sentinel :: "jsval \<Rightarrow> bool" where
  "unresolved_sentinel req =
     (case req of JArr xs \<Rightarrow> \<not> list_all typeof_string xs | _ \<Rightarrow> False)"

section \<open>Example states\<close>

text \<open>
  A state with a definition, three property entries of which two share the name
  \<^verbatim>\<open>a\<close>, a required list and a conditional.
\<close>

definition example_state :: obj where
  "example_state =
     [(''$schema'', JStr ''http://json-schema.org/draft-07/schema#''),
      (''definitions'', JArr [JObj [(''name'', JStr ''d''), (''type'', JStr ''null'')]]),
      (''properties'',
         JArr [JObj [(''name'', JStr ''a''), (''type'', JStr ''string'')],
               JObj [(''name'', JStr ''b'')],
               JObj [(''name'', JStr ''a''), (''type'', JStr ''number''), (''minimum'', JNum 0)]]),
      (''required'', JArr [JStr ''a'']),
      (''type'', JStr ''object''),
      (''if'', JObj [(''minProperties'', JNum 1)]),
      (''title'', JStr ''t''),
      (''then'', JObj [(''maxProperties'', JNum 2)]),
      (''else'', JObj [(''maxProperties'', JNum 0)])]"

definition example_builder :: builder where
  "example_builder =
     construct ObjectSchema example_state \<lparr>generateIds = False, factory = Some ObjectSchema\<rparr>"

text \<open>The builder that \<^verbatim>\<open>S.string()\<close> returns.\<close>

definition example_string :: builder where
  "example_string =
     construct StringSchema (initialState @ [(''type'', JStr ''string'')])
       \<lparr>generateIds = False, factory = Some StringSchema\<rparr>"



section \<open>Notions used in the statements about properties\<close>

text \<open>
  \<^verbatim>\<open>{ ...fresh, ...props }\<close> where \<^verbatim>\<open>const { name, ...props } = currentProp\<close>: the object that
  \<^verbatim>\<open>setAttribute\<close> (with \<open>fresh\<close> the one keyword) and \<^verbatim>\<open>setRaw\<close> (with \<open>fresh\<close> the
  fragment) pass to \<^verbatim>\<open>prop\<close>.
\<close>

definition merged_attributes :: "obj \<Rightarrow> obj \<Rightarrow> obj" where
  "merged_attributes fresh currentProp = obj_assign fresh (obj_del ''name'' currentProp)"


text \<open>
  The \<^verbatim>\<open>$id\<close> that \<^verbatim>\<open>prop\<close> computes for a name that is a string:
  \<^verbatim>\<open>attributes.$id || (options.generateIds ? `#${target}/${name}` : undefined)\<close>.
\<close>

definition entry_id :: "bool \<Rightarrow> string \<Rightarrow> string \<Rightarrow> obj \<Rightarrow> jsval" where
  "entry_id gen target n attributes =
     (if truthy (obj_get attributes ''$id'') then obj_get attributes ''$id''
      else if gen then JStr (''#'' @ target @ ''/'' @ n) else JUndef)"


definition object_options :: options where
  "object_options = \<lparr>generateIds = False, factory = Some ObjectSchema\<rparr>"

text \<open>
  The builder that \<^verbatim>\<open>S.withOptions({ generateIds: true }).object()\<close> returns, the builder
  that \<^verbatim>\<open>S.object().prop('bar', S.string()).required()\<close> returns, and the state after the
  first has taken the second as its property \<^verbatim>\<open>foo\<close>.
\<close>

definition example_generating :: builder where
  "example_generating =
     construct ObjectSchema (initialState @ [(''type'', JStr ''object'')])
       \<lparr>generateIds = True, factory = Some ObjectSchema\<rparr>"

definition example_inner :: builder where
  "example_inner =
     construct ObjectSchema
       [(''$schema'', JStr ''http://json-schema.org/draft-07/schema#''),
        (''definitions'', JArr []),
        (''properties'', JArr [JObj [(''name'', JStr ''bar''), (''type'', JStr ''string'')]]),
        (''required'', JArr [JStr ''bar'']),
        (''type'', JStr ''object'')]
       object_options"

definition example_inner_value :: obj where
  "example_inner_value =
     [(''$schema'', JStr ''http://json-schema.org/draft-07/schema#''),
      (''type'', JStr ''object''),
      (''properties'', JObj [(''bar'', JObj [(''type'', JStr ''string'')])]),
      (''required'', JArr [JStr ''bar''])]"

definition example_generated_state :: obj where
  "example_generated_state =
     [(''$schema'', JStr ''http://json-schema.org/draft-07/schema#''),
      (''definitions'', JArr []),
      (''properties'',
         JArr [JObj [(''name'', JStr ''foo''),
                     (''type'', JStr ''object''),
                     (''properties'',
                        JObj [(''bar'', JObj [(''type'', JStr ''string''),
                                              (''$id'', JStr ''#properties/foo/properties/bar'')])]),
                     (''required'', JArr [JStr ''bar'']),
                     (''$id'', JStr ''#properties/foo'')]]),
      (''required'', JArr []),
      (''type'', JStr ''object'')]"

section \<open>Round trip through the raw entry point\<close>

text \<open>
  The keys of a JavaScript object are distinct. The association lists of the model
  of the entries of \<^verbatim>\<open>definitions\<close> and \<^verbatim>\<open>properties\<close> are therefore taken with
  distinct keys, as those of the state itself are in a well-formed state. The state
  has no own property \<^verbatim>\<open>__proto__\<close>, which \<^verbatim>\<open>Object.assign\<close> would not copy to the
  output.
\<close>

fun distinct_keys :: "jsval \<Rightarrow> bool" where
  "distinct_keys (JObj kvs) = distinct (map fst kvs)"
| "distinct_keys _ = True"

fun distinct_entries :: "jsval \<Rightarrow> bool" where
  "distinct_entries (JArr es) = list_all distinct_keys es"
| "distinct_entries _ = True"

definition js_state :: "obj \<Rightarrow> bool" where
  "js_state s =
     (wf_state s \<and> distinct_entries (obj_get s ''definitions'')
      \<and> distinct_entries (obj_get s ''properties'')
      \<and> ''__proto__'' \<notin> set (map fst s))"

text \<open>
  The outputs that \<^verbatim>\<open>RawSchema\<close> takes in whole. \<^verbatim>\<open>RawSchema\<close> removes \<^verbatim>\<open>type\<close>,
  \<^verbatim>\<open>definitions\<close>, \<^verbatim>\<open>properties\<close> and \<^verbatim>\<open>required\<close> from the fragment; it puts the four
  back when the type is \<^verbatim>\<open>object\<close>, the type alone when it is \<^verbatim>\<open>string\<close>, \<^verbatim>\<open>number\<close>,
  \<^verbatim>\<open>integer\<close>, \<^verbatim>\<open>boolean\<close> or \<^verbatim>\<open>array\<close>, and none of them otherwise. So the fragment is
  taken in whole when it is an object; or one of the five other types, or without
  \<^verbatim>\<open>type\<close>, and then without \<^verbatim>\<open>definitions\<close>, \<^verbatim>\<open>properties\<close> and \<^verbatim>\<open>required\<close>.
\<close>

definition kept_by_raw :: "obj \<Rightarrow> bool" where
  "kept_by_raw out =
     (obj_get out ''type'' = JStr ''object''
      \<or> ((obj_get out ''type'' \<in> set [JStr ''string'', JStr ''number'', JStr ''integer'',
                                        JStr ''boolean'', JStr ''array'']
           \<or> ''type'' \<notin> set (map fst out))
          \<and> ''definitions'' \<notin> set (map fst out)
          \<and> ''properties'' \<notin> set (map fst out)
          \<and> ''required'' \<notin> set (map fst out)))"

text \<open>
  Deep equality of two objects does not look at the order of their keys: the two
  have the same entries.
\<close>

definition same_entries :: "obj \<Rightarrow> obj \<Rightarrow> bool" where
  "same_entries a b = (distinct (map fst a) \<and> distinct (map fst b) \<and> set a = set b)"

text \<open>What \<^verbatim>\<open>valueOf()\<close> returns for the example builder.\<close>

definition example_output :: obj where
  "example_output =
     [(''$schema'', JStr ''http://json-schema.org/draft-07/schema#''),
      (''definitions'', JObj [(''d'', JObj [(''type'', JStr ''null'')])]),
      (''type'', JStr ''object''),
      (''title'', JStr ''t''),
      (''properties'',
         JObj [(''a'', JObj [(''type'', JStr ''number''), (''minimum'', JNum 0)]),
               (''b'', JObj [])]),
      (''required'', JArr [JStr ''a'']),
      (''if'', JObj [(''minProperties'', JNum 1)]),
      (''then'', JObj [(''maxProperties'', JNum 2)]),
      (''else'', JObj [(''maxProperties'', JNum 0)])]"

text \<open>What \<^verbatim>\<open>valueOf()\<close> returns for the builder of \<^verbatim>\<open>S.string()\<close>.\<close>

definition example_string_output :: obj where
  "example_string_output =
     [(''$schema'', JStr ''http://json-schema.org/draft-07/schema#''),
      (''type'', JStr ''string'')]"

text \<open>
  The state after \<^verbatim>\<open>S.withOptions({ generateIds: true }).object()\<close> has taken the same
  builder as its definition \<^verbatim>\<open>foo\<close>.
\<close>

definition example_defined_state :: obj where
  "example_defined_state =
     [(''$schema'', JStr ''http://json-schema.org/draft-07/schema#''),
      (''definitions'',
         JArr [JObj [(''name'', JStr ''foo''),
                     (''type'', JStr ''object''),
                     (''properties'', JObj [(''bar'', JObj [(''type'', JStr ''string'')])]),
                     (''required'', JArr [JStr ''bar'']),
                     (''$id'', JStr ''#definitions/foo'')]]),
      (''properties'', JArr []),
      (''required'', JArr []),
      (''type'', JStr ''object'')]"


section \<open>Lemmas on objects and lists\<close>

lemma keys_obj_set:
  "map fst (obj_set k v kvs) = (if k \<in> set (map fst kvs) then map fst kvs else map fst kvs @ [k])"
  by (induction kvs) force+

lemma distinct_obj_set: "distinct (map fst kvs) \<Longrightarrow> distinct (map fst (obj_set k v kvs))"
  by (simp add: keys_obj_set)

lemma obj_set_fresh: "k \<notin> set (map fst kvs) \<Longrightarrow> obj_set k v kvs = kvs @ [(k, v)]"
  by (induction kvs) auto

lemma map_of_obj_set: "map_of (obj_set k v kvs) = (map_of kvs)(k \<mapsto> v)"
  by (induction kvs) (auto simp: fun_eq_iff)

lemma obj_get_obj_set: "obj_get (obj_set k v kvs) k' = (if k' = k then v else obj_get kvs k')"
  by (simp add: obj_get_def map_of_obj_set)

lemma map_of_obj_del: "map_of (obj_del k kvs) = (map_of kvs)(k := None)"
  by (induction kvs) (auto simp: obj_del_def fun_eq_iff)

lemma obj_get_obj_del: "obj_get (obj_del k kvs) k' = (if k' = k then JUndef else obj_get kvs k')"
  by (simp add: obj_get_def map_of_obj_del)

lemma keys_obj_del: "map fst (obj_del k kvs) = filter (\<lambda>k'. k' \<noteq> k) (map fst kvs)"
  by (induction kvs) (auto simp: obj_del_def)

lemma obj_assign_append: "distinct (map fst (a @ b)) \<Longrightarrow> obj_assign a b = a @ b"
proof (induction b arbitrary: a)
  case Nil
  then show ?case by (simp add: obj_assign_def)
next
  case (Cons kv b)
  obtain k v where kv: "kv = (k, v)" by (cases kv)
  from Cons.prems kv have fresh: "k \<notin> set (map fst a)" by auto
  have "obj_assign a (kv # b) = obj_assign (obj_set k v a) b"
    by (simp add: obj_assign_def kv)
  also have "\<dots> = obj_assign (a @ [(k, v)]) b"
    using fresh by (simp add: obj_set_fresh)
  also have "\<dots> = (a @ [(k, v)]) @ b"
    using Cons.prems kv by (intro Cons.IH) auto
  finally show ?case by (simp add: kv)
qed

lemma omit_filter_aux:
  "distinct (map fst (memo @ s)) \<Longrightarrow>
   foldl (\<lambda>memo (key, value). if key \<in> set ks then memo else obj_set key value memo) memo s
     = memo @ filter (\<lambda>kv. fst kv \<notin> set ks) s"
proof (induction s arbitrary: memo)
  case Nil
  then show ?case by simp
next
  case (Cons kv s)
  obtain k v where kv: "kv = (k, v)" by (cases kv)
  show ?case
  proof (cases "k \<in> set ks")
    case True
    then show ?thesis using Cons.prems kv Cons.IH[of memo] by auto
  next
    case False
    from Cons.prems kv have fresh: "k \<notin> set (map fst memo)" by auto
    have "distinct (map fst ((memo @ [(k, v)]) @ s))" using Cons.prems kv by auto
    from Cons.IH[OF this] False fresh show ?thesis
      by (simp add: kv obj_set_fresh)
  qed
qed

lemma omit_filter: "distinct (map fst s) \<Longrightarrow> omit s ks = filter (\<lambda>kv. fst kv \<notin> set ks) s"
  using omit_filter_aux[of "[]" s ks] by (simp add: omit_def)





lemma ebind_Inr [simp]: "ebind (Inr x) f = f x"
  by (simp add: ebind_def)

lemma ebind_Inl [simp]: "ebind (Inl e) f = Inl e"
  by (simp add: ebind_def)

subsection \<open>Flattening\<close>

lemma first_occurrences_snoc:
  "first_occurrences (ns @ [n]) =
     (if n \<in> set ns then first_occurrences ns else first_occurrences ns @ [n])"
  by (simp add: first_occurrences_def)

lemma distinct_first_occurrences: "distinct (first_occurrences ns)"
  by (simp add: first_occurrences_def)

lemma set_first_occurrences: "set (first_occurrences ns) = set ns"
  by (simp add: first_occurrences_def)

lemma obj_set_map_present:
  "distinct ks \<Longrightarrow> n \<in> set ks \<Longrightarrow>
   obj_set n v (map (\<lambda>m. (m, f m)) ks) = map (\<lambda>m. (m, if m = n then v else f m)) ks"
  by (induction ks) auto

lemma flat_reduce_snoc:
  "flat_reduce memo (es @ [e]) = ebind (flat_reduce memo es) (\<lambda>m. flat_step m e)"
  by (induction es arbitrary: memo) (auto simp: ebind_def split: sum.splits)

lemma flat_step_named:
  "named_entry e \<Longrightarrow> flat_step memo e = Inr (obj_set (entry_name e) (entry_rest e) memo)"
  by (cases e) (auto simp: flat_step_def to_key_def entry_name_def entry_rest_def
      split: jsval.splits)

lemma flatten_spec_snoc:
  "flatten_spec (es @ [e]) = obj_set (entry_name e) (entry_rest e) (flatten_spec es)"
proof (cases "entry_name e \<in> set (map entry_name es)")
  case True
  then have "entry_name e \<in> set (first_occurrences (map entry_name es))"
    by (simp add: set_first_occurrences)
  then show ?thesis
    using True unfolding flatten_spec_def
    by (simp add: first_occurrences_snoc obj_set_map_present distinct_first_occurrences)
next
  case False
  then have fresh: "entry_name e \<notin> set (map fst (flatten_spec es))"
    by (simp add: flatten_spec_def set_first_occurrences comp_def)
  have "\<And>m. m \<in> set (map entry_name es) \<Longrightarrow>
       filter (\<lambda>e'. entry_name e' = m) (es @ [e]) = filter (\<lambda>e'. entry_name e' = m) es"
    using False by auto
  then show ?thesis
    using False fresh unfolding flatten_spec_def
    by (auto simp add: first_occurrences_snoc obj_set_fresh set_first_occurrences)
qed

lemma flat_reduce_named:
  "list_all named_entry es \<Longrightarrow> flat_reduce [] es = Inr (flatten_spec es)"
proof (induction es rule: rev_induct)
  case Nil
  then show ?case by (simp add: flatten_spec_def first_occurrences_def)
next
  case (snoc e es)
  then show ?case
    by (simp add: flat_reduce_snoc flat_step_named flatten_spec_snoc)
qed

subsection \<open>Serialization of a well-formed state\<close>

lemma flat_part_entry_list:
  "entry_list list \<Longrightarrow> flat_part k list = Inr (flattened_part k list)"
proof (cases list)
  case (JArr es)
  assume "entry_list list"
  with JArr have named: "list_all named_entry es" by simp
  show ?thesis
  proof (cases es)
    case Nil
    with JArr show ?thesis by (simp add: flat_part_def flattened_part_def js_or_def)
  next
    case (Cons e es')
    have "own_entries (JArr (e # es')) \<noteq> []" by (simp add: upt_rec)
    with JArr Cons named show ?thesis
      by (simp add: flat_part_def flattened_part_def js_or_def flat_def
          flat_reduce_named[of "e # es'", simplified])
  qed
qed (simp_all add: flat_part_def flattened_part_def js_or_def)

lemma required_part_array:
  "absent_or_array r \<Longrightarrow> required_part r = Inr (nonempty_part ''required'' r)"
proof (cases r)
  case (JArr xs)
  then show ?thesis by (cases xs) (simp_all add: required_part_def nonempty_part_def)
qed (simp_all add: required_part_def nonempty_part_def)

lemma root_check_array:
  "absent_or_array r \<Longrightarrow>
   root_check isRoot r =
     (if isRoot \<and> unresolved_sentinel r then Inl FluentSchemaError else Inr ())"
  by (cases r) (simp_all add: root_check_def unresolved_sentinel_def)

lemma foldl_obj_assign_concat:
  "distinct (map fst (concat (p # xs))) \<Longrightarrow> foldl obj_assign p xs = concat (p # xs)"
proof (induction xs arbitrary: p)
  case Nil
  then show ?case by simp
next
  case (Cons x xs)
  from Cons.prems have "distinct (map fst (p @ x))" by auto
  then have px: "obj_assign p x = p @ x" by (rule obj_assign_append)
  from Cons.prems have "distinct (map fst (concat ((p @ x) # xs)))" by simp
  from Cons.IH[OF this] px show ?case by simp
qed

lemma subseq_truthy_part: "subseq (map fst (truthy_part k v)) [k]"
  by (simp add: truthy_part_def)

lemma subseq_flattened_part: "subseq (map fst (flattened_part k v)) [k]"
  by (simp add: flattened_part_def split: jsval.splits list.splits)

lemma subseq_nonempty_part: "subseq (map fst (nonempty_part k v)) [k]"
  by (simp add: nonempty_part_def split: jsval.splits list.splits)

lemma obj_del_filter: "obj_del k kvs = filter (\<lambda>kv. fst kv \<notin> set [k]) kvs"
  by (simp add: obj_del_def case_prod_unfold)

lemma filter_keys_filter:
  "filter (\<lambda>kv. fst kv \<notin> set bs) (filter (\<lambda>kv. fst kv \<notin> set ks) s)
     = filter (\<lambda>kv. fst kv \<notin> set (ks @ bs)) s"
  by (induction s) auto

lemma schema_rest_filter:
  "schema_rest s =
     filter (\<lambda>kv. fst kv \<notin> set [''properties'', ''definitions'', ''required'', ''$schema'']) s"
  unfolding schema_rest_def obj_del_filter filter_keys_filter by (simp only: append.simps)

lemma omit_schema_rest:
  "distinct (map fst s) \<Longrightarrow> omit (schema_rest s) [''if'', ''then'', ''else''] = other_attributes s"
proof -
  assume d: "distinct (map fst s)"
  have "distinct (map fst (schema_rest s))"
    unfolding schema_rest_filter using d by (rule distinct_map_filter)
  then have "omit (schema_rest s) [''if'', ''then'', ''else'']
      = filter (\<lambda>kv. fst kv \<notin> set [''if'', ''then'', ''else'']) (schema_rest s)"
    by (rule omit_filter)
  also have "\<dots> = other_attributes s"
    unfolding schema_rest_filter other_attributes_def filter_keys_filter
    by (simp only: append.simps)
  finally show ?thesis .
qed

lemma notin_keys_filter:
  "k \<in> set ks \<Longrightarrow> k \<notin> set (map fst (filter (\<lambda>kv. fst kv \<notin> set ks) s))"
  by auto

lemma distinct_valueOf_amended: "distinct (map fst s) \<Longrightarrow> distinct (map fst (valueOf_amended s))"
proof -
  assume d: "distinct (map fst s)"
  let ?full = "[''$schema''] @ [''definitions''] @ map fst (other_attributes s)
     @ [''properties''] @ [''required''] @ [''if''] @ [''then''] @ [''else'']"
  have o: "distinct (map fst (other_attributes s))"
    unfolding other_attributes_def using d by (simp add: distinct_map_filter)
  have ok: "''properties'' \<notin> set (map fst (other_attributes s))"
    "''definitions'' \<notin> set (map fst (other_attributes s))"
    "''required'' \<notin> set (map fst (other_attributes s))"
    "''$schema'' \<notin> set (map fst (other_attributes s))"
    "''if'' \<notin> set (map fst (other_attributes s))"
    "''then'' \<notin> set (map fst (other_attributes s))"
    "''else'' \<notin> set (map fst (other_attributes s))"
    unfolding other_attributes_def by (rule notin_keys_filter, simp)+
  have full: "distinct ?full" using o ok by simp
  have "subseq (map fst (valueOf_amended s)) ?full"
    unfolding valueOf_amended_def map_append
    by (intro list_emb_append_mono subseq_truthy_part subseq_flattened_part
        subseq_nonempty_part subseq_order.order_refl)
  then have "map fst (valueOf_amended s) \<in> set (subseqs ?full)" by (simp only: in_set_subseqs)
  then show ?thesis using full by (rule subseqs_distinctD)
qed

lemma valueOf_schema_wf:
  assumes "wf_state s"
  shows "valueOf_schema s isRoot =
     (if isRoot \<and> unresolved_sentinel (obj_get s ''required'') then Inl FluentSchemaError
      else Inr (valueOf_amended s))"
proof -
  from assms have d: "distinct (map fst s)"
    and ed: "entry_list (obj_get s ''definitions'')"
    and ep: "entry_list (obj_get s ''properties'')"
    and ar: "absent_or_array (obj_get s ''required'')"
    by (simp_all add: wf_state_def)
  let ?p = "truthy_part ''$schema'' (obj_get s ''$schema'')"
  let ?xs = "[flattened_part ''definitions'' (obj_get s ''definitions''),
        other_attributes s,
        flattened_part ''properties'' (obj_get s ''properties''),
        nonempty_part ''required'' (obj_get s ''required''),
        truthy_part ''if'' (obj_get s ''if''),
        truthy_part ''then'' (obj_get s ''then''),
        truthy_part ''else'' (obj_get s ''else'')]"
  have eq: "concat (?p # ?xs) = valueOf_amended s"
    by (simp add: valueOf_amended_def)
  have "distinct (map fst (concat (?p # ?xs)))"
    unfolding eq by (rule distinct_valueOf_amended[OF d])
  then have "foldl obj_assign ?p ?xs = concat (?p # ?xs)"
    by (rule foldl_obj_assign_concat)
  then have cat: "foldl obj_assign ?p ?xs = valueOf_amended s"
    by (simp only: eq)
  show ?thesis
    unfolding valueOf_schema_def Let_def
    by (simp only: root_check_array[OF ar] flat_part_entry_list[OF ed] flat_part_entry_list[OF ep]
        required_part_array[OF ar] omit_schema_rest[OF d] cat ebind_Inr ebind_Inl if_distrib[of "\<lambda>m. ebind m f" for f] split: if_splits)
qed

subsection \<open>Keys of the serialized parts\<close>

lemma map_of_obj_assign_notin:
  "k \<notin> set (map fst b) \<Longrightarrow> map_of (obj_assign a b) k = map_of a k"
proof (induction b arbitrary: a)
  case Nil
  then show ?case by (simp add: obj_assign_def)
next
  case (Cons kv b)
  obtain k' v where kv: "kv = (k', v)" by (cases kv)
  with Cons.prems have ne: "k \<noteq> k'" and notin: "k \<notin> set (map fst b)" by auto
  have "obj_assign a (kv # b) = obj_assign (obj_set k' v a) b"
    by (simp add: obj_assign_def kv)
  with Cons.IH[OF notin, of "obj_set k' v a"] ne show ?case
    by (simp add: map_of_obj_set)
qed

lemma keys_fold_obj_set:
  "set (map fst (foldl (\<lambda>memo (key, v). if P key v then memo else obj_set key v memo) memo ob))
     \<subseteq> set (map fst memo) \<union> {k. \<exists>v. (k, v) \<in> set ob \<and> \<not> P k v}"
proof (induction ob arbitrary: memo)
  case Nil
  then show ?case by simp
next
  case (Cons kv ob)
  obtain k v where kv: "kv = (k, v)" by (cases kv)
  show ?case
  proof (cases "P k v")
    case True
    with Cons.IH[of memo] show ?thesis by (auto simp: kv)
  next
    case False
    have "set (map fst (obj_set k v memo)) \<subseteq> set (map fst memo) \<union> {k}"
      by (auto simp: keys_obj_set)
    with Cons.IH[of "obj_set k v memo"] False show ?thesis
      by (simp add: kv) blast
  qed
qed

lemma keys_omit: "set (map fst (omit s ks)) \<subseteq> set (map fst s) - set ks"
proof -
  have "set (map fst (omit s ks)) \<subseteq> {k. \<exists>v. (k, v) \<in> set s \<and> \<not> k \<in> set ks}"
    using keys_fold_obj_set[of "\<lambda>k v. k \<in> set ks" "[]" s] by (simp add: omit_def)
  then show ?thesis by force
qed

lemma keys_strip: "set (map fst (strip ob)) \<subseteq> {k. \<exists>v. (k, v) \<in> set ob \<and> \<not> stripped k v}"
  using keys_fold_obj_set[of stripped "[]" ob] by (simp add: strip_def)

lemma schema_notin_strip: "''$schema'' \<notin> set (map fst (strip ob))"
  using keys_strip[of ob] by (auto simp: stripped_def)

lemma keys_flat_part: "flat_part k l = Inr ds \<Longrightarrow> set (map fst ds) \<subseteq> {k}"
  by (auto simp: flat_part_def ebind_def split: if_splits sum.splits)

lemma keys_required_part: "required_part r = Inr rq \<Longrightarrow> set (map fst rq) \<subseteq> {''required''}"
  by (auto simp: required_part_def ebind_def split: if_splits sum.splits)

lemma keys_obj_assign: "set (map fst (obj_assign a b)) = set (map fst a) \<union> set (map fst b)"
proof (induction b arbitrary: a)
  case Nil
  then show ?case by (simp add: obj_assign_def)
next
  case (Cons kv b)
  obtain k v where kv: "kv = (k, v)" by (cases kv)
  have "obj_assign a (kv # b) = obj_assign (obj_set k v a) b"
    by (simp add: obj_assign_def kv)
  with Cons.IH[of "obj_set k v a"] show ?case
    by (auto simp: kv keys_obj_set)
qed

lemma schema_notin_schema_rest: "''$schema'' \<notin> set (map fst (schema_rest s))"
  unfolding schema_rest_filter by (rule notin_keys_filter) simp

lemma map_of_truthy_part:
  "truthy v \<Longrightarrow> map_of (truthy_part k v) k = Some v"
  by (simp add: truthy_part_def)

lemma keys_truthy_part: "set (map fst (truthy_part k v)) \<subseteq> {k}"
  by (auto simp: truthy_part_def)

lemma valueOf_schema_includes_schema:
  assumes t: "truthy (obj_get s ''$schema'')" and v: "valueOf_schema s isRoot = Inr out"
  shows "map_of out ''$schema'' = Some (obj_get s ''$schema'')"
proof -
  from v obtain ds ps rq where
    ds: "flat_part ''definitions'' (obj_get s ''definitions'') = Inr ds" and
    ps: "flat_part ''properties'' (obj_get s ''properties'') = Inr ps" and
    rq: "required_part (obj_get s ''required'') = Inr rq" and
    out: "out = foldl obj_assign (truthy_part ''$schema'' (obj_get s ''$schema''))
            [ds, omit (schema_rest s) [''if'', ''then'', ''else''], ps, rq,
             truthy_part ''if'' (obj_get s ''if''),
             truthy_part ''then'' (obj_get s ''then''),
             truthy_part ''else'' (obj_get s ''else'')]"
    unfolding valueOf_schema_def Let_def
    by (auto simp: ebind_def simp del: foldl_Cons foldl_Nil split: sum.splits)
  have a1: "''$schema'' \<notin> set (map fst ds)" using keys_flat_part[OF ds] by auto
  have a2: "''$schema'' \<notin> set (map fst (omit (schema_rest s) [''if'', ''then'', ''else'']))"
    using keys_omit[of "schema_rest s" "[''if'', ''then'', ''else'']"] schema_notin_schema_rest[of s]
    by blast
  have a3: "''$schema'' \<notin> set (map fst ps)" using keys_flat_part[OF ps] by auto
  have a4: "''$schema'' \<notin> set (map fst rq)" using keys_required_part[OF rq] by auto
  have a5: "''$schema'' \<notin> set (map fst (truthy_part ''if'' (obj_get s ''if'')))"
    using keys_truthy_part[of "''if''" "obj_get s ''if''"] by auto
  have a6: "''$schema'' \<notin> set (map fst (truthy_part ''then'' (obj_get s ''then'')))"
    using keys_truthy_part[of "''then''" "obj_get s ''then''"] by auto
  have a7: "''$schema'' \<notin> set (map fst (truthy_part ''else'' (obj_get s ''else'')))"
    using keys_truthy_part[of "''else''" "obj_get s ''else''"] by auto
  show ?thesis
    unfolding out foldl_Cons foldl_Nil
    by (simp only: map_of_obj_assign_notin a1 a2 a3 a4 a5 a6 a7 map_of_truthy_part[OF t]
        not_False_eq_True)
qed

lemma schema_notin_prop_entry:
  "''$schema'' \<notin> set (map fst (own_entries (prop_entry name attributes did)))"
proof -
  have "''$schema'' \<notin> set (map fst (obj_assign [(''name'', name)] (strip ob)))" for ob
    using schema_notin_strip[of ob] keys_obj_assign[of "[(''name'', name)]" "strip ob"] by auto
  then show ?thesis
    by (simp add: prop_entry_def Let_def)
qed

lemma schema_notin_compose_values:
  "compose_values schemas = Inr vs \<Longrightarrow> v \<in> set vs \<Longrightarrow>
   ''$schema'' \<notin> set (map fst (own_entries v))"
proof (induction schemas arbitrary: vs)
  case Nil
  then show ?case by simp
next
  case (Cons a schemas)
  from Cons.prems(1) obtain w ws where
    w: "arg_valueOf a False = Inr w" and ws: "compose_values schemas = Inr ws"
    and vs: "vs = JObj (obj_del ''$schema'' (own_entries w)) # ws"
    by (auto simp: ebind_def split: sum.splits)
  show ?case
  proof (cases "v \<in> set ws")
    case True
    with Cons.IH[OF ws] show ?thesis by simp
  next
    case False
    with Cons.prems(2) vs have "v = JObj (obj_del ''$schema'' (own_entries w))" by simp
    then show ?thesis by (simp add: keys_obj_del)
  qed
qed

subsection \<open>Duplicates in the required list\<close>



lemma patchIds_keeps:
  "patchIdsWithParentId attrs gen did = Inr patched \<Longrightarrow> k \<noteq> ''properties'' \<Longrightarrow>
   obj_get patched k = obj_get attrs k"
  by (auto simp: patchIdsWithParentId_def Let_def ebind_def obj_get_obj_set
      split: if_splits sum.splits)




subsection \<open>Attributes of the entry that prop builds\<close>

lemma distinct_obj_assign:
  "distinct (map fst a) \<Longrightarrow> distinct (map fst (obj_assign a b))"
proof (induction b arbitrary: a)
  case Nil
  then show ?case by (simp add: obj_assign_def)
next
  case (Cons kv b)
  obtain k v where kv: "kv = (k, v)" by (cases kv)
  have "obj_assign a (kv # b) = obj_assign (obj_set k v a) b"
    by (simp add: obj_assign_def kv)
  with Cons.IH[of "obj_set k v a"] Cons.prems show ?case
    by (simp add: distinct_obj_set)
qed

lemma map_of_obj_assign:
  "distinct (map fst b) \<Longrightarrow> map_of (obj_assign a b) = map_of a ++ map_of b"
proof (induction b arbitrary: a)
  case Nil
  then show ?case by (simp add: obj_assign_def)
next
  case (Cons kv b)
  obtain k v where kv: "kv = (k, v)" by (cases kv)
  from Cons.prems kv have fresh: "k \<notin> dom (map_of b)" and d: "distinct (map fst b)"
    by (auto simp: dom_map_of_conv_image_fst)
  have "map_of (obj_assign a (kv # b)) = map_of (obj_assign (obj_set k v a) b)"
    by (simp add: obj_assign_def kv)
  also have "\<dots> = map_of (obj_set k v a) ++ map_of b"
    by (rule Cons.IH[OF d])
  also have "\<dots> = (map_of a)(k \<mapsto> v) ++ map_of b"
    by (simp only: map_of_obj_set)
  also have "\<dots> = (map_of a ++ map_of b)(k \<mapsto> v)"
    using fresh by (rule map_add_upd_left)
  also have "\<dots> = map_of a ++ map_of (kv # b)"
    by (simp only: kv map_of.simps map_add_upd fst_conv snd_conv)
  finally show ?case .
qed

lemma obj_get_obj_assign:
  assumes "distinct (map fst b)"
  shows "obj_get (obj_assign a b) k =
     (if k \<in> set (map fst b) then obj_get b k else obj_get a k)"
proof (cases "k \<in> dom (map_of b)")
  case True
  then have "(map_of a ++ map_of b) k = map_of b k" by (rule map_add_dom_app_simps)
  with True show ?thesis
    by (simp add: obj_get_def map_of_obj_assign[OF assms] dom_map_of_conv_image_fst)
next
  case False
  then have "(map_of a ++ map_of b) k = map_of a k" by (rule map_add_dom_app_simps)
  with False show ?thesis
    by (simp add: obj_get_def map_of_obj_assign[OF assms] dom_map_of_conv_image_fst)
qed

lemma fold_obj_set_filter:
  "distinct (map fst (memo @ s)) \<Longrightarrow>
   foldl (\<lambda>memo (key, v). if P key v then memo else obj_set key v memo) memo s
     = memo @ filter (\<lambda>(key, v). \<not> P key v) s"
proof (induction s arbitrary: memo)
  case Nil
  then show ?case by simp
next
  case (Cons kv s)
  obtain k v where kv: "kv = (k, v)" by (cases kv)
  show ?case
  proof (cases "P k v")
    case True
    then show ?thesis using Cons.prems kv Cons.IH[of memo] by auto
  next
    case False
    from Cons.prems kv have fresh: "k \<notin> set (map fst memo)" by auto
    have "distinct (map fst ((memo @ [(k, v)]) @ s))" using Cons.prems kv by auto
    from Cons.IH[OF this] False fresh show ?thesis
      by (simp add: kv obj_set_fresh)
  qed
qed

lemma strip_filter:
  "distinct (map fst ob) \<Longrightarrow> strip ob = filter (\<lambda>(key, v). \<not> stripped key v) ob"
  using fold_obj_set_filter[of "[]" ob stripped] by (simp add: strip_def)

lemma map_of_filter_distinct:
  "distinct (map fst xs) \<Longrightarrow>
   map_of (filter (\<lambda>(k, v). Q k v) xs) k =
     (case map_of xs k of None \<Rightarrow> None | Some v \<Rightarrow> if Q k v then Some v else None)"
proof (induction xs)
  case Nil
  then show ?case by simp
next
  case (Cons kv xs)
  obtain k' v' where kv: "kv = (k', v')" by (cases kv)
  from Cons.prems kv have fresh: "map_of xs k' = None"
    by (simp add: map_of_eq_None_iff)
  from Cons.prems have d: "distinct (map fst xs)" by simp
  show ?case
    using Cons.IH[OF d] fresh by (auto simp: kv split: option.splits)
qed

lemma obj_get_strip:
  "distinct (map fst ob) \<Longrightarrow>
   obj_get (strip ob) k = (if stripped k (obj_get ob k) then JUndef else obj_get ob k)"
  by (auto simp: strip_filter obj_get_def map_of_filter_distinct stripped_def
      split: option.splits)

lemma distinct_strip: "distinct (map fst ob) \<Longrightarrow> distinct (map fst (strip ob))"
  by (simp add: strip_filter distinct_map_filter)

lemma keys_obj_del_set: "set (map fst (obj_del k kvs)) = set (map fst kvs) - {k}"
  by (auto simp: keys_obj_del)

lemma distinct_obj_del: "distinct (map fst kvs) \<Longrightarrow> distinct (map fst (obj_del k kvs))"
  by (simp add: keys_obj_del)

lemma get_prop_entry:
  assumes d: "distinct (map fst merged)"
    and noref: "\<not> truthy (obj_get merged ''$ref'')"
    and k: "k \<noteq> ''name''" "k \<noteq> ''$id''" "k \<noteq> ''type''"
  shows "get (prop_entry name merged did) k =
     (if stripped k (obj_get merged k) then JUndef else obj_get merged k)"
proof -
  define T where "T = (if truthy (hasCombiningKeywords merged) then JUndef
                       else obj_get merged ''type'')"
  define X where "X = obj_set ''type'' T (obj_set ''$id'' did merged)"
  have dX: "distinct (map fst X)"
    unfolding X_def using d by (intro distinct_obj_set)
  have gX: "obj_get X k = obj_get merged k"
    unfolding X_def using k by (simp add: obj_get_obj_set)
  have "get (prop_entry name merged did) k = obj_get (obj_assign [(''name'', name)] (strip X)) k"
    using noref by (simp add: prop_entry_def Let_def T_def X_def)
  also have "\<dots> = obj_get (strip X) k"
  proof (cases "k \<in> set (map fst (strip X))")
    case True
    then show ?thesis by (simp add: obj_get_obj_assign distinct_strip[OF dX])
  next
    case False
    then have "obj_get (strip X) k = JUndef"
      by (simp add: obj_get_def map_of_eq_None_iff[symmetric] split: option.splits)
    moreover have "obj_get [(''name'', name)] k = JUndef"
      using k by (simp add: obj_get_def)
    ultimately show ?thesis
      using False by (simp add: obj_get_obj_assign distinct_strip[OF dX])
  qed
  also have "\<dots> = (if stripped k (obj_get merged k) then JUndef else obj_get merged k)"
    by (simp add: obj_get_strip[OF dX] gX)
  finally show ?thesis .
qed

subsection \<open>Attribute targeting\<close>

lemma with_default_factory_given:
  "factory os = Some k \<Longrightarrow> with_default_factory d os = os"
  by (cases os) (simp add: with_default_factory_def)

lemma filled_ObjectSchema:
  "factory os = Some ObjectSchema \<Longrightarrow> filled ObjectSchema os = os"
  by (simp add: with_default_factory_given)








lemma merged_attributes_get:
  assumes "distinct (map fst e)" and "k \<noteq> ''name''"
  shows "k \<notin> set (map fst fresh) \<Longrightarrow> obj_get (merged_attributes fresh e) k = obj_get e k"
    and "k \<notin> set (map fst e) \<Longrightarrow> obj_get (merged_attributes fresh e) k = obj_get fresh k"
proof -
  have d: "distinct (map fst (obj_del ''name'' e))"
    using assms(1) by (rule distinct_obj_del)
  have g: "obj_get (obj_del ''name'' e) k = obj_get e k"
    using assms(2) by (simp add: obj_get_obj_del)
  have none: "k' \<notin> set (map fst xs) \<Longrightarrow> obj_get xs k' = JUndef" for k' xs
    by (simp add: obj_get_def map_of_eq_None_iff[symmetric] split: option.splits)
  show "k \<notin> set (map fst fresh) \<Longrightarrow> obj_get (merged_attributes fresh e) k = obj_get e k"
    using none[of k fresh] none[of k "obj_del ''name'' e"]
    by (simp add: merged_attributes_def obj_get_obj_assign[OF d] g)
  show "obj_get (merged_attributes fresh e) k = obj_get fresh k" if "k \<notin> set (map fst e)"
  proof -
    from that have "k \<notin> set (map fst (obj_del ''name'' e))"
      using keys_obj_del_set[of "''name''" e] by auto
    then show ?thesis
      by (simp add: merged_attributes_def obj_get_obj_assign[OF d])
  qed
qed

lemma distinct_merged_attributes:
  "distinct (map fst fresh) \<Longrightarrow> distinct (map fst (merged_attributes fresh e))"
  unfolding merged_attributes_def by (rule distinct_obj_assign)

subsection \<open>Identifiers of properties\<close>

lemma distinct_truthy_part: "distinct (map fst (truthy_part k v))"
  by (simp add: truthy_part_def)

lemma distinct_foldl_obj_assign:
  "distinct (map fst p) \<Longrightarrow> distinct (map fst (foldl obj_assign p xs))"
  by (induction xs arbitrary: p) (simp_all add: distinct_obj_assign)

lemma distinct_valueOf_schema:
  "valueOf_schema s r = Inr out \<Longrightarrow> distinct (map fst out)"
  unfolding valueOf_schema_def Let_def
  by (auto simp: ebind_def distinct_foldl_obj_assign distinct_truthy_part
      simp del: foldl_Cons foldl_Nil split: sum.splits)

lemma prop_head_fluent:
  "valueOf sub False = Inr attrs \<Longrightarrow>
   prop_head gen (JStr n) (Fluent sub) =
     Inr (''properties'', attrs, entry_id gen ''properties'' n attrs)"
  by (simp add: prop_head_def entry_id_def Let_def)

lemma appendRequired_result:
  assumes "appendRequired attrs sch = Inr (sp, ap)"
  shows "k \<noteq> ''required'' \<Longrightarrow> k \<noteq> ''name'' \<Longrightarrow> obj_get ap k = obj_get attrs k"
    and "''name'' \<notin> set (map fst ap)"
    and "distinct (map fst attrs) \<Longrightarrow> distinct (map fst ap)"
    and "k' \<noteq> ''required'' \<Longrightarrow> obj_get sp k' = obj_get sch k'"
proof -
  from assms obtain ar pr where
    ap: "ap = obj_set ''required'' (JArr ar) (obj_del ''required'' (obj_del ''name'' attrs))"
    and sp: "sp = obj_set ''required'' (JArr pr) sch"
    unfolding appendRequired_def Let_def
    by (auto simp: ebind_def split: sum.splits prod.splits if_splits)
  show "k \<noteq> ''required'' \<Longrightarrow> k \<noteq> ''name'' \<Longrightarrow> obj_get ap k = obj_get attrs k"
    by (simp add: ap obj_get_obj_set obj_get_obj_del)
  show "''name'' \<notin> set (map fst ap)"
    unfolding ap by (simp add: keys_obj_set keys_obj_del)
  show "distinct (map fst attrs) \<Longrightarrow> distinct (map fst ap)"
    unfolding ap by (intro distinct_obj_set distinct_obj_del)
  show "k' \<noteq> ''required'' \<Longrightarrow> obj_get sp k' = obj_get sch k'"
    by (simp add: sp obj_get_obj_set)
qed

lemma patchIds_distinct:
  "patchIdsWithParentId attrs gen did = Inr patched \<Longrightarrow> distinct (map fst attrs) \<Longrightarrow>
   distinct (map fst patched)"
  by (auto simp: patchIdsWithParentId_def Let_def ebind_def distinct_obj_set
      split: if_splits sum.splits)

lemma patchIds_properties:
  assumes "patchIdsWithParentId attrs gen did = Inr patched"
    and "obj_get attrs ''properties'' = JObj props" and "props \<noteq> []"
  shows "\<exists>ps. obj_get patched ''properties'' = JObj ps \<and> patch_reduce gen did [] props = Inr ps"
  using assms
  by (auto simp: patchIdsWithParentId_def Let_def ebind_def js_or_def obj_get_obj_set
      split: if_splits sum.splits)

lemma patch_reduce_other:
  "patch_reduce gen did memo props = Inr ps \<Longrightarrow> key \<notin> set (map fst props) \<Longrightarrow>
   map_of ps key = map_of memo key"
proof (induction props arbitrary: memo)
  case Nil
  then show ?case by simp
next
  case (Cons entry props)
  obtain k p where entry: "entry = (k, p)" by (cases entry)
  from Cons.prems(1) entry obtain x where
    x: "patch_id gen did k p = Inr x"
    and rest: "patch_reduce gen did (obj_set k (JObj (obj_set ''$id'' x (own_entries p))) memo) props = Inr ps"
    by (auto simp: patch_step_def ebind_def split: sum.splits)
  from Cons.prems(2) entry have ne: "key \<noteq> k" and notin: "key \<notin> set (map fst props)" by auto
  from Cons.IH[OF rest notin] ne show ?case by (simp add: map_of_obj_set)
qed

lemma patch_reduce_lookup:
  "patch_reduce gen did memo props = Inr ps \<Longrightarrow> distinct (map fst props) \<Longrightarrow>
   map_of props key = Some p \<Longrightarrow>
   \<exists>x. patch_id gen did key p = Inr x
        \<and> map_of ps key = Some (JObj (obj_set ''$id'' x (own_entries p)))"
proof (induction props arbitrary: memo)
  case Nil
  then show ?case by simp
next
  case (Cons entry props)
  obtain k q where entry: "entry = (k, q)" by (cases entry)
  from Cons.prems(1) entry obtain x where
    x: "patch_id gen did k q = Inr x"
    and rest: "patch_reduce gen did (obj_set k (JObj (obj_set ''$id'' x (own_entries q))) memo) props = Inr ps"
    by (auto simp: patch_step_def ebind_def split: sum.splits)
  from Cons.prems(2) entry have fresh: "k \<notin> set (map fst props)" and d: "distinct (map fst props)"
    by auto
  show ?case
  proof (cases "key = k")
    case True
    with Cons.prems(3) entry have "p = q" by simp
    with patch_reduce_other[OF rest fresh] x True show ?thesis
      by (simp add: map_of_obj_set)
  next
    case False
    with Cons.prems(3) entry have "map_of props key = Some p" by simp
    from Cons.IH[OF rest d this] show ?thesis .
  qed
qed

lemma patch_id_generated:
  assumes "patch_id True parent key p = Inr x" and "truthy parent"
  shows "\<exists>pid s. to_str parent = Inr pid
           \<and> js_or (get p ''$id'') (JStr (''#properties/'' @ key)) = JStr s
           \<and> x = JStr (pid @ ''/'' @ remove_hash s)"
proof -
  let ?d = "js_or (get p ''$id'') (JStr (''#properties/'' @ key))"
  from assms have r: "ebind (to_str parent) (\<lambda>pid.
      ebind (replace_hash ?d) (\<lambda>r. Inr (JStr (pid @ ''/'' @ r)))) = Inr x"
    by (simp add: patch_id_def Let_def split: if_splits)
  then obtain pid where pid: "to_str parent = Inr pid"
    and r': "ebind (replace_hash ?d) (\<lambda>r. Inr (JStr (pid @ ''/'' @ r))) = Inr x"
    by (cases "to_str parent") (simp_all add: ebind_def)
  from r' obtain s where "?d = JStr s" and "x = JStr (pid @ ''/'' @ remove_hash s)"
    by (cases ?d) (simp_all add: ebind_def)
  with pid show ?thesis by blast
qed

lemma notin_keys_strip: "k \<notin> set (map fst ob) \<Longrightarrow> k \<notin> set (map fst (strip ob))"
proof
  assume notin: "k \<notin> set (map fst ob)" and "k \<in> set (map fst (strip ob))"
  with keys_strip[of ob] obtain v where "(k, v) \<in> set ob" by blast
  then have "k \<in> set (map fst ob)" by force
  with notin show False by simp
qed

lemma get_prop_entry_id:
  assumes d: "distinct (map fst m)" and noref: "\<not> truthy (obj_get m ''$ref'')"
  shows "get (prop_entry name m did) ''$id'' = (if stripped ''$id'' did then JUndef else did)"
proof -
  define T where "T = (if truthy (hasCombiningKeywords m) then JUndef else obj_get m ''type'')"
  define X where "X = obj_set ''type'' T (obj_set ''$id'' did m)"
  have dX: "distinct (map fst X)"
    unfolding X_def using d by (intro distinct_obj_set)
  have gX: "obj_get X ''$id'' = did"
    unfolding X_def by (simp add: obj_get_obj_set)
  have "get (prop_entry name m did) ''$id'' = obj_get (obj_assign [(''name'', name)] (strip X)) ''$id''"
    using noref by (simp add: prop_entry_def Let_def T_def X_def)
  also have "\<dots> = obj_get (strip X) ''$id''"
  proof (cases "''$id'' \<in> set (map fst (strip X))")
    case True
    then show ?thesis by (simp add: obj_get_obj_assign distinct_strip[OF dX])
  next
    case False
    then have "obj_get (strip X) ''$id'' = JUndef"
      by (simp add: obj_get_def map_of_eq_None_iff[symmetric] split: option.splits)
    moreover have "obj_get [(''name'', name)] ''$id'' = JUndef"
      by (simp add: obj_get_def)
    ultimately show ?thesis
      using False by (simp add: obj_get_obj_assign distinct_strip[OF dX])
  qed
  also have "\<dots> = (if stripped ''$id'' did then JUndef else did)"
    by (simp add: obj_get_strip[OF dX] gX)
  finally show ?thesis .
qed

lemma get_prop_entry_name:
  assumes "''name'' \<notin> set (map fst m)"
  shows "get (prop_entry name m did) ''name'' = name"
proof (cases "truthy (obj_get m ''$ref'')")
  case True
  then show ?thesis by (simp add: prop_entry_def Let_def obj_get_def)
next
  case False
  define T where "T = (if truthy (hasCombiningKeywords m) then JUndef else obj_get m ''type'')"
  define X where "X = obj_set ''type'' T (obj_set ''$id'' did m)"
  have "''name'' \<notin> set (map fst X)"
    unfolding X_def using assms by (simp add: keys_obj_set)
  then have n: "''name'' \<notin> set (map fst (strip X))"
    by (rule notin_keys_strip)
  have "map_of (obj_assign [(''name'', name)] (strip X)) ''name'' = map_of [(''name'', name)] ''name''"
    using n by (rule map_of_obj_assign_notin)
  then show ?thesis
    using False by (simp add: prop_entry_def Let_def T_def X_def obj_get_def)
qed

lemma prop_entry_object: "\<exists>e. prop_entry nm m did = JObj e"
  by (simp add: prop_entry_def Let_def)

lemma prop_tail_result:
  assumes "prop_tail sch os nm target ap did = Inr b'"
  shows "\<exists>entries. obj_get (base_schema b') target = JArr (entries @ [prop_entry nm ap did])"
proof -
  from assms obtain entries where
    "b' = construct ObjectSchema
            (obj_set target (JArr (entries @ [prop_entry nm ap did])) sch) os"
    by (auto simp: prop_tail_def Let_def ebind_def split: sum.splits)
  then show ?thesis by (auto simp: construct_def obj_get_obj_set)
qed

lemma prop_result:
  assumes head: "prop_head (generateIds (opts b)) nm a = Inr (target, attributes, did)"
    and dflt: "prop_default a = a"
    and res: "ObjectSchema_prop b nm a = Inr b'"
  shows "\<exists>ap entries.
      obj_get (base_schema b') target = JArr (entries @ [prop_entry nm ap did])
      \<and> (distinct (map fst attributes) \<longrightarrow> distinct (map fst ap))
      \<and> (\<forall>k. k \<noteq> ''required'' \<and> k \<noteq> ''name'' \<and> k \<noteq> ''properties'' \<longrightarrow>
             obj_get ap k = obj_get attributes k)
      \<and> (isFluentSchema a \<longrightarrow>
            ''name'' \<notin> set (map fst ap)
            \<and> (\<exists>patched. patchIdsWithParentId attributes (generateIds (opts b)) did = Inr patched
                  \<and> obj_get ap ''properties'' = obj_get patched ''properties''))"
proof (cases "isFluentSchema a")
  case False
  with res head dflt have "prop_tail (schema b) (opts b) nm target attributes did = Inr b'"
    by (simp add: ObjectSchema_prop_def prop_st_def)
  from prop_tail_result[OF this] False show ?thesis by auto
next
  case True
  with res head dflt obtain sp ap where
    fl: "prop_fluent (generateIds (opts b)) (schema b) nm attributes did = Inr (sp, ap)"
    and tl: "prop_tail sp (opts b) nm target ap did = Inr b'"
    by (auto simp: ObjectSchema_prop_def prop_st_def split: sum.splits prod.splits)
  from fl obtain patched where
    patch: "patchIdsWithParentId attributes (generateIds (opts b)) did = Inr patched"
    and app: "appendRequired (obj_set ''name'' nm patched) (schema b) = Inr (sp, ap)"
    by (auto simp: prop_fluent_def ebind_def split: sum.splits)
  have d: "distinct (map fst attributes) \<Longrightarrow> distinct (map fst ap)"
    by (intro appendRequired_result(3)[OF app] distinct_obj_set patchIds_distinct[OF patch])
  have keep: "obj_get ap k = obj_get attributes k"
    if "k \<noteq> ''required''" "k \<noteq> ''name''" "k \<noteq> ''properties''" for k
    using appendRequired_result(1)[OF app that(1,2)] patchIds_keeps[OF patch that(3)] that
    by (simp add: obj_get_obj_set)
  have props: "obj_get ap ''properties'' = obj_get patched ''properties''"
    using appendRequired_result(1)[OF app, of "''properties''"] by (simp add: obj_get_obj_set)
  from prop_tail_result[OF tl] d keep props appendRequired_result(2)[OF app] patch
  show ?thesis by blast
qed

lemma not_stripped_id: "\<not> stripped ''$id'' (JStr s)"
  by (simp add: stripped_def)

lemma not_stripped_object: "k \<noteq> ''$schema'' \<Longrightarrow> k \<noteq> ''def'' \<Longrightarrow> \<not> stripped k (JObj ps)"
  by (simp add: stripped_def)

lemma generated_ids_of_prop:
  assumes gen: "generateIds (opts b)"
    and sub: "valueOf sub False = Inr attrs"
    and res: "ObjectSchema_prop b (JStr n) (Fluent sub) = Inr b'"
  shows "\<exists>es e. obj_get (base_schema b') ''properties'' = JArr (es @ [JObj e])
      \<and> obj_get e ''name'' = JStr n
      \<and> (truthy (obj_get attrs ''$ref'') \<longrightarrow>
           e = [(''name'', JStr n), (''$ref'', obj_get attrs ''$ref'')])
      \<and> (\<not> truthy (obj_get attrs ''$ref'') \<longrightarrow>
           (\<not> truthy (obj_get attrs ''$id'') \<longrightarrow> obj_get e ''$id'' = JStr (''#properties/'' @ n))
           \<and> (\<forall>v. obj_get attrs ''$id'' = JStr v \<and> v \<noteq> [] \<longrightarrow> obj_get e ''$id'' = JStr v)
           \<and> (\<forall>props key p.
                 obj_get attrs ''properties'' = JObj props \<and> distinct (map fst props)
                 \<and> map_of props key = Some p \<longrightarrow>
                 (\<exists>ps p' pid s.
                    obj_get e ''properties'' = JObj ps \<and> map_of ps key = Some (JObj p')
                    \<and> to_str (entry_id True ''properties'' n attrs) = Inr pid
                    \<and> js_or (get p ''$id'') (JStr (''#properties/'' @ key)) = JStr s
                    \<and> obj_get p' ''$id'' = JStr (pid @ ''/'' @ remove_hash s))))"
proof -
  define did where "did = entry_id True ''properties'' n attrs"
  have head: "prop_head (generateIds (opts b)) (JStr n) (Fluent sub)
      = Inr (''properties'', attrs, did)"
    using prop_head_fluent[OF sub, of "generateIds (opts b)" n] gen by (simp add: did_def)
  have dflt: "prop_default (Fluent sub) = Fluent sub" by (simp add: prop_default_def)
  from prop_result[OF head dflt res] obtain ap entries patched where
    list: "obj_get (base_schema b') ''properties'' = JArr (entries @ [prop_entry (JStr n) ap did])"
    and dist: "distinct (map fst attrs) \<longrightarrow> distinct (map fst ap)"
    and keep: "\<And>k. k \<noteq> ''required'' \<Longrightarrow> k \<noteq> ''name'' \<Longrightarrow> k \<noteq> ''properties'' \<Longrightarrow>
             obj_get ap k = obj_get attrs k"
    and noname: "''name'' \<notin> set (map fst ap)"
    and patch: "patchIdsWithParentId attrs True did = Inr patched"
    and props: "obj_get ap ''properties'' = obj_get patched ''properties''"
    using gen by auto
  have dattrs: "distinct (map fst attrs)"
    using sub by (auto simp: valueOf_def intro: distinct_valueOf_schema)
  with dist have dap: "distinct (map fst ap)" by simp
  obtain e where e: "prop_entry (JStr n) ap did = JObj e"
    using prop_entry_object by blast
  have name: "obj_get e ''name'' = JStr n"
    using get_prop_entry_name[OF noname, of "JStr n" did] by (simp add: e)
  have refeq: "obj_get ap ''$ref'' = obj_get attrs ''$ref''"
    by (rule keep) simp_all
  have collapse: "e = [(''name'', JStr n), (''$ref'', obj_get attrs ''$ref'')]"
    if "truthy (obj_get attrs ''$ref'')"
    using that e by (simp add: prop_entry_def Let_def refeq)
  have truthy_did: "truthy did"
    by (simp add: did_def entry_id_def)
  have ids: "obj_get e ''$id'' = (if stripped ''$id'' did then JUndef else did)"
    if "\<not> truthy (obj_get attrs ''$ref'')"
    using get_prop_entry_id[OF dap, of "JStr n" did] that by (simp add: e refeq)
  have auto_id: "obj_get e ''$id'' = JStr (''#properties/'' @ n)"
    if "\<not> truthy (obj_get attrs ''$ref'')" "\<not> truthy (obj_get attrs ''$id'')"
    using ids[OF that(1)] that(2) by (simp add: did_def entry_id_def not_stripped_id)
  have explicit_id: "obj_get e ''$id'' = JStr v"
    if "\<not> truthy (obj_get attrs ''$ref'')" "obj_get attrs ''$id'' = JStr v" "v \<noteq> []" for v
    using ids[OF that(1)] that(2,3) by (simp add: did_def entry_id_def not_stripped_id)
  have nested: "\<exists>ps p' pid s.
        obj_get e ''properties'' = JObj ps \<and> map_of ps key = Some (JObj p')
        \<and> to_str did = Inr pid
        \<and> js_or (get p ''$id'') (JStr (''#properties/'' @ key)) = JStr s
        \<and> obj_get p' ''$id'' = JStr (pid @ ''/'' @ remove_hash s)"
    if noref: "\<not> truthy (obj_get attrs ''$ref'')"
      and ps: "obj_get attrs ''properties'' = JObj props"
      and dp: "distinct (map fst props)"
      and kp: "map_of props key = Some p" for props key p
  proof -
    from kp have ne: "props \<noteq> []" by auto
    from patchIds_properties[OF patch ps ne] obtain qs where
      qs: "obj_get patched ''properties'' = JObj qs"
      and red: "patch_reduce True did [] props = Inr qs"
      by blast
    from patch_reduce_lookup[OF red dp kp] obtain x where
      x: "patch_id True did key p = Inr x"
      and look: "map_of qs key = Some (JObj (obj_set ''$id'' x (own_entries p)))"
      by blast
    from patch_id_generated[OF x truthy_did] obtain pid s where
      pid: "to_str did = Inr pid"
      and s: "js_or (get p ''$id'') (JStr (''#properties/'' @ key)) = JStr s"
      and xeq: "x = JStr (pid @ ''/'' @ remove_hash s)"
      by blast
    have "get (prop_entry (JStr n) ap did) ''properties'' =
        (if stripped ''properties'' (obj_get ap ''properties'') then JUndef
         else obj_get ap ''properties'')"
      using noref by (intro get_prop_entry[OF dap]) (simp_all add: refeq)
    then have "obj_get e ''properties'' = JObj qs"
      by (simp add: e props qs not_stripped_object)
    moreover have "obj_get (obj_set ''$id'' x (own_entries p)) ''$id'' = x"
      by (simp add: obj_get_obj_set)
    ultimately show ?thesis using look pid s xeq by blast
  qed
  have list': "obj_get (base_schema b') ''properties'' = JArr (entries @ [JObj e])"
    using list by (simp only: e)
  show ?thesis
    unfolding did_def[symmetric]
  proof (rule exI[of _ entries], rule exI[of _ e], intro conjI impI allI)
    show "obj_get (base_schema b') ''properties'' = JArr (entries @ [JObj e])" by (rule list')
    show "obj_get e ''name'' = JStr n" by (rule name)
    show "e = [(''name'', JStr n), (''$ref'', obj_get attrs ''$ref'')]"
      if "truthy (obj_get attrs ''$ref'')" using that by (rule collapse)
    show "obj_get e ''$id'' = JStr (''#properties/'' @ n)"
      if "\<not> truthy (obj_get attrs ''$ref'')" "\<not> truthy (obj_get attrs ''$id'')"
      using that by (rule auto_id)
    show "obj_get e ''$id'' = JStr v"
      if "\<not> truthy (obj_get attrs ''$ref'')" "obj_get attrs ''$id'' = JStr v \<and> v \<noteq> []" for v
      using that explicit_id by blast
    show "\<exists>ps p' pid s.
        obj_get e ''properties'' = JObj ps \<and> map_of ps key = Some (JObj p')
        \<and> to_str did = Inr pid
        \<and> js_or (get p ''$id'') (JStr (''#properties/'' @ key)) = JStr s
        \<and> obj_get p' ''$id'' = JStr (pid @ ''/'' @ remove_hash s)"
      if "\<not> truthy (obj_get attrs ''$ref'')"
        "obj_get attrs ''properties'' = JObj props \<and> distinct (map fst props)
         \<and> map_of props key = Some p" for props key p
      using that nested[of props key p] by blast
  qed
qed

lemma prop_head_definition:
  assumes "''valueOf'' \<notin> set (map fst attrs)"
  shows "prop_head gen (JStr n) (Plain (JObj (obj_set ''def'' (JBool True) attrs))) =
     Inr (''definitions'', obj_set ''def'' (JBool True) attrs,
          entry_id gen ''definitions'' n attrs)"
proof -
  have "''valueOf'' \<notin> set (map fst (obj_set ''def'' (JBool True) attrs))"
    using assms by (simp add: keys_obj_set)
  then show ?thesis
    by (simp add: prop_head_def entry_id_def Let_def obj_get_obj_set)
qed

lemma prop_head_definition_fails:
  assumes "''valueOf'' \<in> set (map fst attrs)"
  shows "prop_head gen (JStr n) (Plain (JObj (obj_set ''def'' (JBool True) attrs))) = Inl TypeError"
proof -
  have "''valueOf'' \<in> set (map fst (obj_set ''def'' (JBool True) attrs))"
    using assms by (simp add: keys_obj_set)
  then show ?thesis
    by (simp add: prop_head_def Let_def obj_get_obj_set)
qed

lemma prop_fails_with_head:
  "prop_head (generateIds (opts b)) nm (prop_default a) = Inl err \<Longrightarrow>
   ObjectSchema_prop b nm a = Inl err"
  by (simp add: ObjectSchema_prop_def prop_st_def)

lemma prop_result_plain:
  assumes head: "prop_head (generateIds (opts b)) nm a = Inr (target, attributes, did)"
    and dflt: "prop_default a = a"
    and res: "ObjectSchema_prop b nm a = Inr b'"
    and plain: "\<not> isFluentSchema a"
  shows "\<exists>entries. obj_get (base_schema b') target = JArr (entries @ [prop_entry nm attributes did])"
proof -
  from res head dflt plain have "prop_tail (schema b) (opts b) nm target attributes did = Inr b'"
    by (simp add: ObjectSchema_prop_def prop_st_def)
  then show ?thesis by (rule prop_tail_result)
qed

lemma generated_id_of_definition:
  assumes gen: "generateIds (opts b)"
    and sub: "valueOf sub False = Inr attrs"
    and res: "ObjectSchema_definition b (JStr n) (Fluent sub) = Inr b'"
  shows "\<exists>es e. obj_get (base_schema b') ''definitions'' = JArr (es @ [JObj e])
      \<and> (\<not> truthy (obj_get attrs ''$ref'') \<longrightarrow>
           (\<not> truthy (obj_get attrs ''$id'') \<longrightarrow> obj_get e ''$id'' = JStr (''#definitions/'' @ n))
           \<and> (\<forall>v. obj_get attrs ''$id'' = JStr v \<and> v \<noteq> [] \<longrightarrow> obj_get e ''$id'' = JStr v)
           \<and> (\<forall>props. obj_get attrs ''properties'' = JObj props
                 \<and> \<not> truthy (obj_get attrs ''isFluentSchema'') \<longrightarrow>
                 obj_get e ''properties'' = JObj props))"
proof -
  define m where "m = obj_set ''def'' (JBool True) attrs"
  define b0 where "b0 = construct ObjectSchema (schema b) (opts b)"
  define did where "did = entry_id True ''definitions'' n attrs"
  have gen0: "generateIds (opts b0)"
    using gen by (cases "opts b") (simp add: b0_def construct_def with_default_factory_def)
  have res0: "ObjectSchema_prop b0 (JStr n) (Plain (JObj m)) = Inr b'"
    using res sub by (simp add: ObjectSchema_definition_def prop_default_def m_def b0_def)
  have dflt: "prop_default (Plain (JObj m)) = Plain (JObj m)"
    by (simp add: prop_default_def)
  have nov: "''valueOf'' \<notin> set (map fst attrs)"
  proof
    assume "''valueOf'' \<in> set (map fst attrs)"
    from prop_head_definition_fails[OF this, of "generateIds (opts b0)" n]
    have "ObjectSchema_prop b0 (JStr n) (Plain (JObj m)) = Inl TypeError"
      by (intro prop_fails_with_head) (simp add: prop_default_def m_def)
    with res0 show False by simp
  qed
  have head: "prop_head (generateIds (opts b0)) (JStr n) (Plain (JObj m))
      = Inr (''definitions'', m, did)"
    using prop_head_definition[OF nov, of "generateIds (opts b0)" n] gen0
    by (simp add: m_def did_def)
  from prop_result[OF head dflt res0] obtain ap entries where
    list: "obj_get (base_schema b') ''definitions'' = JArr (entries @ [prop_entry (JStr n) ap did])"
    and dist: "distinct (map fst m) \<longrightarrow> distinct (map fst ap)"
    and keep: "\<And>k. k \<noteq> ''required'' \<Longrightarrow> k \<noteq> ''name'' \<Longrightarrow> k \<noteq> ''properties'' \<Longrightarrow>
             obj_get ap k = obj_get m k"
    by auto
  have "distinct (map fst attrs)"
    using sub by (auto simp: valueOf_def intro: distinct_valueOf_schema)
  then have dm: "distinct (map fst m)" unfolding m_def by (rule distinct_obj_set)
  with dist have dap: "distinct (map fst ap)" by simp
  obtain e where e: "prop_entry (JStr n) ap did = JObj e"
    using prop_entry_object by blast
  have refeq: "obj_get ap ''$ref'' = obj_get attrs ''$ref''"
    using keep[of "''$ref''"] by (simp add: m_def obj_get_obj_set)
  have ids: "obj_get e ''$id'' = (if stripped ''$id'' did then JUndef else did)"
    if "\<not> truthy (obj_get attrs ''$ref'')"
    using get_prop_entry_id[OF dap, of "JStr n" did] that by (simp add: e refeq)
  have auto_id: "obj_get e ''$id'' = JStr (''#definitions/'' @ n)"
    if "\<not> truthy (obj_get attrs ''$ref'')" "\<not> truthy (obj_get attrs ''$id'')"
    using ids[OF that(1)] that(2) by (simp add: did_def entry_id_def not_stripped_id)
  have explicit_id: "obj_get e ''$id'' = JStr v"
    if "\<not> truthy (obj_get attrs ''$ref'')" "obj_get attrs ''$id'' = JStr v" "v \<noteq> []" for v
    using ids[OF that(1)] that(2,3) by (simp add: did_def entry_id_def not_stripped_id)
  have nested: "obj_get e ''properties'' = JObj props"
    if noref: "\<not> truthy (obj_get attrs ''$ref'')" and ps: "obj_get attrs ''properties'' = JObj props"
      and nf: "\<not> truthy (obj_get attrs ''isFluentSchema'')"
    for props
  proof -
    have "obj_get m ''isFluentSchema'' = obj_get attrs ''isFluentSchema''"
      by (simp add: m_def obj_get_obj_set)
    with nf have plain: "\<not> isFluentSchema (Plain (JObj m))"
      by simp
    from prop_result_plain[OF head dflt res0 plain] obtain entries' where
      "obj_get (base_schema b') ''definitions'' = JArr (entries' @ [prop_entry (JStr n) m did])"
      by blast
    with list e have em: "prop_entry (JStr n) m did = JObj e"
      by simp
    have "obj_get m ''$ref'' = obj_get attrs ''$ref''"
      by (simp add: m_def obj_get_obj_set)
    with noref have nr: "\<not> truthy (obj_get m ''$ref'')" by simp
    have propeq: "obj_get m ''properties'' = obj_get attrs ''properties''"
      by (simp add: m_def obj_get_obj_set)
    have ns: "\<not> stripped ''properties'' (JObj props)"
      by (rule not_stripped_object) simp_all
    have "get (prop_entry (JStr n) m did) ''properties'' =
        (if stripped ''properties'' (obj_get m ''properties'') then JUndef
         else obj_get m ''properties'')"
      by (rule get_prop_entry[OF dm nr]) simp_all
    then show ?thesis
      using ns by (simp add: em propeq ps)
  qed
  have list': "obj_get (base_schema b') ''definitions'' = JArr (entries @ [JObj e])"
    using list by (simp only: e)
  show ?thesis
  proof (rule exI[of _ entries], rule exI[of _ e], intro conjI impI allI)
    show "obj_get (base_schema b') ''definitions'' = JArr (entries @ [JObj e])" by (rule list')
    show "obj_get e ''$id'' = JStr (''#definitions/'' @ n)"
      if "\<not> truthy (obj_get attrs ''$ref'')" "\<not> truthy (obj_get attrs ''$id'')"
      using that by (rule auto_id)
    show "obj_get e ''$id'' = JStr v"
      if "\<not> truthy (obj_get attrs ''$ref'')" "obj_get attrs ''$id'' = JStr v \<and> v \<noteq> []" for v
      using that explicit_id by blast
    show "obj_get e ''properties'' = JObj props"
      if "\<not> truthy (obj_get attrs ''$ref'')"
        "obj_get attrs ''properties'' = JObj props \<and> \<not> truthy (obj_get attrs ''isFluentSchema'')"
      for props
      using that nested by blast
  qed
qed

subsection \<open>Raw ingestion\<close>

lemma set_obj_set: "set (obj_set k v xs) \<subseteq> insert (k, v) (set xs)"
  by (induction xs) (auto split: if_splits)

lemma entry_with_name:
  assumes "distinct (map fst r)" and "''name'' \<notin> set (map fst r)"
  shows "obj_assign [(''name'', JStr k)] r = (''name'', JStr k) # r"
  using obj_assign_append[of "[(''name'', JStr k)]" r] assms by simp

lemma entry_name_with_name: "entry_name (JObj ((''name'', JStr k) # r)) = k"
  by (simp add: entry_name_def obj_get_def)

lemma entry_rest_with_name:
  "''name'' \<notin> set (map fst r) \<Longrightarrow> entry_rest (JObj ((''name'', JStr k) # r)) = JObj r"
  by (induction r) (auto simp: entry_rest_def obj_del_def)

lemma flatten_spec_Nil: "flatten_spec [] = []"
  by (simp add: flatten_spec_def first_occurrences_def)

lemma flatten_spec_entries:
  assumes "distinct (map fst fl)"
    and "\<forall>(k, v) \<in> set fl. \<exists>r. v = JObj r \<and> distinct (map fst r) \<and> ''name'' \<notin> set (map fst r)"
  shows "flatten_spec
      (map (\<lambda>(key, v). JObj (obj_assign [(''name'', JStr key)] (own_entries v))) fl) = fl"
  using assms
proof (induction fl rule: rev_induct)
  case Nil
  show ?case by (simp add: flatten_spec_Nil)
next
  case (snoc kv fl)
  obtain k v where kv: "kv = (k, v)" by (cases kv)
  from snoc.prems(2) kv obtain r where
    r: "v = JObj r" "distinct (map fst r)" "''name'' \<notin> set (map fst r)"
    by auto
  from snoc.prems(1) kv have fresh: "k \<notin> set (map fst fl)" and d: "distinct (map fst fl)"
    by auto
  from snoc.prems(2) have rest:
    "\<forall>(k, v) \<in> set fl. \<exists>r. v = JObj r \<and> distinct (map fst r) \<and> ''name'' \<notin> set (map fst r)"
    by auto
  let ?mk = "\<lambda>(key, v). JObj (obj_assign [(''name'', JStr key)] (own_entries v))"
  have mk: "?mk kv = JObj ((''name'', JStr k) # r)"
    using entry_with_name[OF r(2,3)] kv r(1) by simp
  have "flatten_spec (map ?mk (fl @ [kv])) = flatten_spec (map ?mk fl @ [?mk kv])"
    by simp
  also have "\<dots> = obj_set (entry_name (?mk kv)) (entry_rest (?mk kv)) (flatten_spec (map ?mk fl))"
    by (rule flatten_spec_snoc)
  also have "\<dots> = obj_set k v fl"
    unfolding mk snoc.IH[OF d rest] entry_name_with_name entry_rest_with_name[OF r(3)] r(1) ..
  also have "\<dots> = fl @ [kv]"
    using obj_set_fresh[OF fresh] kv by simp
  finally show ?case .
qed

lemma flatten_spec_values:
  assumes "list_all named_entry es" and "list_all distinct_keys es"
  shows "distinct (map fst (flatten_spec es))
     \<and> (\<forall>(k, v) \<in> set (flatten_spec es).
           \<exists>r. v = JObj r \<and> distinct (map fst r) \<and> ''name'' \<notin> set (map fst r))"
  using assms
proof (induction es rule: rev_induct)
  case Nil
  show ?case by (simp add: flatten_spec_Nil)
next
  case (snoc e es)
  from snoc.prems have "named_entry e" "distinct_keys e" by simp_all
  then obtain kvs where e: "e = JObj kvs" and dk: "distinct (map fst kvs)"
    by (cases e) simp_all
  have rest: "entry_rest e = JObj (obj_del ''name'' kvs)"
    by (simp add: e entry_rest_def)
  have good: "distinct (map fst (obj_del ''name'' kvs))"
    "''name'' \<notin> set (map fst (obj_del ''name'' kvs))"
    using dk by (simp_all add: keys_obj_del)
  from snoc have IH: "distinct (map fst (flatten_spec es))"
    "\<forall>(k, v) \<in> set (flatten_spec es).
        \<exists>r. v = JObj r \<and> distinct (map fst r) \<and> ''name'' \<notin> set (map fst r)"
    by simp_all
  have step: "flatten_spec (es @ [e]) = obj_set (entry_name e) (entry_rest e) (flatten_spec es)"
    by (rule flatten_spec_snoc)
  have "distinct (map fst (flatten_spec (es @ [e])))"
    unfolding step using IH(1) by (rule distinct_obj_set)
  moreover have "\<exists>r. v = JObj r \<and> distinct (map fst r) \<and> ''name'' \<notin> set (map fst r)"
    if "(k, v) \<in> set (flatten_spec (es @ [e]))" for k v
  proof -
    from that set_obj_set[of "entry_name e" "entry_rest e" "flatten_spec es"]
    have "(k, v) = (entry_name e, entry_rest e) \<or> (k, v) \<in> set (flatten_spec es)"
      unfolding step by auto
    then show ?thesis
    proof
      assume "(k, v) = (entry_name e, entry_rest e)"
      with rest good show ?thesis by simp
    next
      assume "(k, v) \<in> set (flatten_spec es)"
      with IH(2) show ?thesis by auto
    qed
  qed
  ultimately show ?case by auto
qed

lemma flatten_spec_nonempty: "flatten_spec (e # es) \<noteq> []"
proof -
  have "set (first_occurrences (map entry_name (e # es))) \<noteq> {}"
    unfolding set_first_occurrences by simp
  then show ?thesis
    by (auto simp: flatten_spec_def)
qed

lemma named_entries_toArray:
  assumes "\<forall>(k, v) \<in> set fl. \<exists>r. v = JObj r \<and> distinct (map fst r) \<and> ''name'' \<notin> set (map fst r)"
  shows "list_all named_entry
      (map (\<lambda>(key, v). JObj (obj_assign [(''name'', JStr key)] (own_entries v))) fl)"
proof -
  have "named_entry (JObj (obj_assign [(''name'', JStr k)] (own_entries v)))"
    if "(k, v) \<in> set fl" for k v
  proof -
    from assms that obtain r where
      r: "v = JObj r" "distinct (map fst r)" "''name'' \<notin> set (map fst r)"
      by auto
    show ?thesis
      using entry_with_name[OF r(2,3), of k] r(1) by (simp add: obj_get_def)
  qed
  then show ?thesis
    by (auto simp: list_all_iff)
qed

lemma flattened_part_toArray:
  assumes el: "entry_list l" and de: "distinct_entries l"
  shows "flattened_part k (js_or (toArray (obj_get (flattened_part k l) k)) (JArr []))
           = flattened_part k l"
    and "entry_list (js_or (toArray (obj_get (flattened_part k l) k)) (JArr []))"
proof -
  have empty: "js_or (toArray (obj_get [] k)) (JArr []) = JArr []"
    by (simp add: obj_get_def toArray_def js_or_def)
  have both: "flattened_part k (js_or (toArray (obj_get (flattened_part k l) k)) (JArr []))
           = flattened_part k l
     \<and> entry_list (js_or (toArray (obj_get (flattened_part k l) k)) (JArr []))"
  proof (cases "\<exists>e es. l = JArr (e # es)")
    case True
    then obtain e es where l: "l = JArr (e # es)" by blast
    let ?fl = "flatten_spec (e # es)"
    let ?mk = "\<lambda>(key, v). JObj (obj_assign [(''name'', JStr key)] (own_entries v))"
    from el de l have "list_all named_entry (e # es)" "list_all distinct_keys (e # es)"
      by simp_all
    from flatten_spec_values[OF this] have
      d: "distinct (map fst ?fl)" and
      vs: "\<forall>(k, v) \<in> set ?fl. \<exists>r. v = JObj r \<and> distinct (map fst r) \<and> ''name'' \<notin> set (map fst r)"
      by blast+
    have fp: "flattened_part k l = [(k, JObj ?fl)]"
      by (simp add: flattened_part_def l)
    have arr: "js_or (toArray (obj_get (flattened_part k l) k)) (JArr []) = JArr (map ?mk ?fl)"
      by (simp add: fp obj_get_def toArray_def js_or_def)
    obtain x xs where cons: "map ?mk ?fl = x # xs"
      using flatten_spec_nonempty[of e es] by (cases "map ?mk ?fl") auto
    have "flattened_part k (JArr (map ?mk ?fl)) = [(k, JObj (flatten_spec (map ?mk ?fl)))]"
      unfolding cons by (simp add: flattened_part_def)
    also have "\<dots> = [(k, JObj ?fl)]"
      by (simp only: flatten_spec_entries[OF d vs])
    finally have "flattened_part k (JArr (map ?mk ?fl)) = flattened_part k l"
      by (simp only: fp)
    moreover have "entry_list (JArr (map ?mk ?fl))"
      using named_entries_toArray[OF vs] by simp
    ultimately show ?thesis by (simp only: arr)
  next
    case False
    then have fp: "flattened_part k l = []"
      by (auto simp: flattened_part_def split: jsval.splits list.splits)
    have "flattened_part k (JArr []) = []" "entry_list (JArr [])"
      by (simp_all add: flattened_part_def)
    then show ?thesis
      by (simp only: fp empty simp_thms)
  qed
  from both show "flattened_part k (js_or (toArray (obj_get (flattened_part k l) k)) (JArr []))
           = flattened_part k l" ..
  from both show "entry_list (js_or (toArray (obj_get (flattened_part k l) k)) (JArr []))" ..
qed

lemma nonempty_part_required:
  assumes "absent_or_array r"
  shows "nonempty_part k (js_or (obj_get (nonempty_part k r) k) (JArr [])) = nonempty_part k r"
    and "absent_or_array (js_or (obj_get (nonempty_part k r) k) (JArr []))"
    and "\<not> unresolved_sentinel r \<Longrightarrow>
         \<not> unresolved_sentinel (js_or (obj_get (nonempty_part k r) k) (JArr []))"
proof -
  let ?J = "js_or (obj_get (nonempty_part k r) k) (JArr [])"
  have c: "?J = r \<or> ?J = JArr [] \<and> nonempty_part k r = []"
    by (cases r; simp add: nonempty_part_def js_or_def obj_get_def split: list.splits)
  have e: "nonempty_part k (JArr []) = []" "absent_or_array (JArr [])"
    "\<not> unresolved_sentinel (JArr [])"
    by (simp_all add: nonempty_part_def unresolved_sentinel_def)
  from c show "nonempty_part k ?J = nonempty_part k r"
  proof (elim disjE conjE)
    assume "?J = r"
    then show ?thesis by simp
  next
    assume "?J = JArr []" "nonempty_part k r = []"
    with e(1) show ?thesis by simp
  qed
  from c show "absent_or_array ?J"
  proof (elim disjE conjE)
    assume "?J = r"
    with assms show ?thesis by simp
  next
    assume "?J = JArr []"
    with e(2) show ?thesis by simp
  qed
  from c show "\<not> unresolved_sentinel ?J" if "\<not> unresolved_sentinel r"
  proof (elim disjE conjE)
    assume "?J = r"
    with that show ?thesis by simp
  next
    assume "?J = JArr []"
    with e(3) show ?thesis by simp
  qed
qed

lemma map_of_filter_keys:
  "map_of (filter (\<lambda>kv. fst kv \<notin> set ks) s) k = (if k \<in> set ks then None else map_of s k)"
  by (induction s) auto

lemma set_filter_keys:
  "distinct (map fst s) \<Longrightarrow>
   set (filter (\<lambda>kv. fst kv \<notin> set ks) s) = {(k, v). k \<notin> set ks \<and> map_of s k = Some v}"
  by auto

lemma map_of_truthy_part_other: "k \<noteq> k' \<Longrightarrow> map_of (truthy_part k' v) k = None"
  by (simp add: truthy_part_def)

lemma map_of_flattened_part_other: "k \<noteq> k' \<Longrightarrow> map_of (flattened_part k' v) k = None"
  by (simp add: flattened_part_def split: jsval.splits list.splits)

lemma map_of_nonempty_part_other: "k \<noteq> k' \<Longrightarrow> map_of (nonempty_part k' v) k = None"
  by (simp add: nonempty_part_def split: jsval.splits list.splits)

lemma map_of_append_left: "map_of ys k = None \<Longrightarrow> map_of (xs @ ys) k = map_of xs k"
  by (simp add: map_add_def split: option.splits)

lemma map_of_append_right: "map_of xs k = None \<Longrightarrow> map_of (xs @ ys) k = map_of ys k"
  by (simp add: map_add_def)

lemma map_of_valueOf_amended_other:
  assumes "k \<notin> set [''properties'', ''definitions'', ''required'', ''$schema'',
                       ''if'', ''then'', ''else'']"
  shows "map_of (valueOf_amended s) k = map_of s k"
proof -
  from assms have ne: "k \<noteq> ''properties''" "k \<noteq> ''definitions''" "k \<noteq> ''required''"
    "k \<noteq> ''$schema''" "k \<noteq> ''if''" "k \<noteq> ''then''" "k \<noteq> ''else''"
    by simp_all
  have o: "map_of (other_attributes s) k = map_of s k"
    unfolding other_attributes_def map_of_filter_keys using assms by (simp only: if_False)
  show ?thesis
    unfolding valueOf_amended_def
    by (simp only: map_of_append_right map_of_append_left map_of_truthy_part_other
        map_of_flattened_part_other map_of_nonempty_part_other ne not_False_eq_True o)
qed

lemma map_of_segments:
  fixes s :: obj and a b c d e f g :: string and va vb vc vd ve vf vg :: jsval
  assumes "distinct [a, b, c, d, e, f, g]"
  defines "out \<equiv> truthy_part a va @ flattened_part b vb
           @ filter (\<lambda>kv. fst kv \<notin> set [c, b, d, a, e, f, g]) s
           @ flattened_part c vc @ nonempty_part d vd
           @ truthy_part e ve @ truthy_part f vf @ truthy_part g vg"
  shows "map_of (out) a = map_of (truthy_part a va) a"
    and "map_of (out) b = map_of (flattened_part b vb) b"
    and "map_of (out) c = map_of (flattened_part c vc) c"
    and "map_of (out) d = map_of (nonempty_part d vd) d"
    and "map_of (out) e = map_of (truthy_part e ve) e"
    and "map_of (out) f = map_of (truthy_part f vf) f"
    and "map_of (out) g = map_of (truthy_part g vg) g"
proof -
  from assms(1) have ne: "a \<noteq> b" "a \<noteq> c" "a \<noteq> d" "a \<noteq> e" "a \<noteq> f" "a \<noteq> g" "b \<noteq> a" "b \<noteq> c" "b \<noteq> d" "b \<noteq> e" "b \<noteq> f" "b \<noteq> g" "c \<noteq> a" "c \<noteq> b" "c \<noteq> d" "c \<noteq> e" "c \<noteq> f" "c \<noteq> g" "d \<noteq> a" "d \<noteq> b" "d \<noteq> c" "d \<noteq> e" "d \<noteq> f" "d \<noteq> g" "e \<noteq> a" "e \<noteq> b" "e \<noteq> c" "e \<noteq> d" "e \<noteq> f" "e \<noteq> g" "f \<noteq> a" "f \<noteq> b" "f \<noteq> c" "f \<noteq> d" "f \<noteq> e" "f \<noteq> g" "g \<noteq> a" "g \<noteq> b" "g \<noteq> c" "g \<noteq> d" "g \<noteq> e" "g \<noteq> f"
    by auto
  have o: "map_of (filter (\<lambda>kv. fst kv \<notin> set [c, b, d, a, e, f, g]) s) k = None"
    if "k \<in> set [c, b, d, a, e, f, g]" for k
    using that by (simp only: map_of_filter_keys if_True)
  have os: "map_of (filter (\<lambda>kv. fst kv \<notin> set [c, b, d, a, e, f, g]) s) a = None"
    "map_of (filter (\<lambda>kv. fst kv \<notin> set [c, b, d, a, e, f, g]) s) b = None"
    "map_of (filter (\<lambda>kv. fst kv \<notin> set [c, b, d, a, e, f, g]) s) c = None"
    "map_of (filter (\<lambda>kv. fst kv \<notin> set [c, b, d, a, e, f, g]) s) d = None"
    "map_of (filter (\<lambda>kv. fst kv \<notin> set [c, b, d, a, e, f, g]) s) e = None"
    "map_of (filter (\<lambda>kv. fst kv \<notin> set [c, b, d, a, e, f, g]) s) f = None"
    "map_of (filter (\<lambda>kv. fst kv \<notin> set [c, b, d, a, e, f, g]) s) g = None"
    by (rule o, simp)+
  note rules = map_of_append_right map_of_append_left map_of_truthy_part_other
    map_of_flattened_part_other map_of_nonempty_part_other ne os not_False_eq_True
  show "map_of out a = map_of (truthy_part a va) a"
    unfolding out_def by (simp only: rules)
  show "map_of out b = map_of (flattened_part b vb) b"
    unfolding out_def by (simp only: rules)
  show "map_of out c = map_of (flattened_part c vc) c"
    unfolding out_def by (simp only: rules)
  show "map_of out d = map_of (nonempty_part d vd) d"
    unfolding out_def by (simp only: rules)
  show "map_of out e = map_of (truthy_part e ve) e"
    unfolding out_def by (simp only: rules)
  show "map_of out f = map_of (truthy_part f vf) f"
    unfolding out_def by (simp only: rules)
  show "map_of out g = map_of (truthy_part g vg) g"
    unfolding out_def by (simp only: rules)
qed

lemma map_of_valueOf_amended:
  "map_of (valueOf_amended s) ''$schema''
     = map_of (truthy_part ''$schema'' (obj_get s ''$schema'')) ''$schema''"
  "map_of (valueOf_amended s) ''definitions''
     = map_of (flattened_part ''definitions'' (obj_get s ''definitions'')) ''definitions''"
  "map_of (valueOf_amended s) ''properties''
     = map_of (flattened_part ''properties'' (obj_get s ''properties'')) ''properties''"
  "map_of (valueOf_amended s) ''required''
     = map_of (nonempty_part ''required'' (obj_get s ''required'')) ''required''"
  "map_of (valueOf_amended s) ''if'' = map_of (truthy_part ''if'' (obj_get s ''if'')) ''if''"
  "map_of (valueOf_amended s) ''then'' = map_of (truthy_part ''then'' (obj_get s ''then'')) ''then''"
  "map_of (valueOf_amended s) ''else'' = map_of (truthy_part ''else'' (obj_get s ''else'')) ''else''"
proof -
  have d: "distinct [''$schema'', ''definitions'', ''properties'', ''required'',
                     ''if'', ''then'', ''else'']"
    by simp
  note seg = map_of_segments[OF d, of "obj_get s ''$schema''" "obj_get s ''definitions''" s
      "obj_get s ''properties''" "obj_get s ''required''" "obj_get s ''if''"
      "obj_get s ''then''" "obj_get s ''else''"]
  show "map_of (valueOf_amended s) ''$schema''
     = map_of (truthy_part ''$schema'' (obj_get s ''$schema'')) ''$schema''"
    unfolding valueOf_amended_def other_attributes_def by (rule seg(1))
  show "map_of (valueOf_amended s) ''definitions''
     = map_of (flattened_part ''definitions'' (obj_get s ''definitions'')) ''definitions''"
    unfolding valueOf_amended_def other_attributes_def by (rule seg(2))
  show "map_of (valueOf_amended s) ''properties''
     = map_of (flattened_part ''properties'' (obj_get s ''properties'')) ''properties''"
    unfolding valueOf_amended_def other_attributes_def by (rule seg(3))
  show "map_of (valueOf_amended s) ''required''
     = map_of (nonempty_part ''required'' (obj_get s ''required'')) ''required''"
    unfolding valueOf_amended_def other_attributes_def by (rule seg(4))
  show "map_of (valueOf_amended s) ''if'' = map_of (truthy_part ''if'' (obj_get s ''if'')) ''if''"
    unfolding valueOf_amended_def other_attributes_def by (rule seg(5))
  show "map_of (valueOf_amended s) ''then'' = map_of (truthy_part ''then'' (obj_get s ''then'')) ''then''"
    unfolding valueOf_amended_def other_attributes_def by (rule seg(6))
  show "map_of (valueOf_amended s) ''else'' = map_of (truthy_part ''else'' (obj_get s ''else'')) ''else''"
    unfolding valueOf_amended_def other_attributes_def by (rule seg(7))
qed

lemma obj_get_cong: "map_of a k = map_of b k' \<Longrightarrow> obj_get a k = obj_get b k'"
  by (simp add: obj_get_def)

lemma truthy_part_idem: "truthy_part k (obj_get (truthy_part k v) k) = truthy_part k v"
  by (simp add: truthy_part_def obj_get_def)

lemma set_filter_keys_cong:
  assumes "distinct (map fst s)" and "distinct (map fst s')"
    and "\<And>k. k \<notin> set ks \<Longrightarrow> map_of s' k = map_of s k"
  shows "set (filter (\<lambda>kv. fst kv \<notin> set ks) s') = set (filter (\<lambda>kv. fst kv \<notin> set ks) s)"
  unfolding set_filter_keys[OF assms(1)] set_filter_keys[OF assms(2)]
  using assms(3) by auto

lemma set_other_attributes:
  assumes "distinct (map fst s)" and "distinct (map fst s')"
    and "\<And>k. k \<notin> set [''properties'', ''definitions'', ''required'', ''$schema'',
                          ''if'', ''then'', ''else''] \<Longrightarrow> map_of s' k = map_of s k"
  shows "set (other_attributes s') = set (other_attributes s)"
  unfolding other_attributes_def using assms by (rule set_filter_keys_cong)

lemma valueOf_amended_same:
  assumes d: "distinct (map fst s)" and d': "distinct (map fst s')"
    and others: "\<And>k. k \<notin> set [''definitions'', ''properties'', ''required''] \<Longrightarrow>
        map_of s' k = map_of (valueOf_amended s) k"
    and fd: "flattened_part ''definitions'' (obj_get s' ''definitions'')
        = flattened_part ''definitions'' (obj_get s ''definitions'')"
    and fp: "flattened_part ''properties'' (obj_get s' ''properties'')
        = flattened_part ''properties'' (obj_get s ''properties'')"
    and rq: "nonempty_part ''required'' (obj_get s' ''required'')
        = nonempty_part ''required'' (obj_get s ''required'')"
  shows "same_entries (valueOf_amended s') (valueOf_amended s)"
proof -
  have t1: "truthy_part ''$schema'' (obj_get s' ''$schema'')
      = truthy_part ''$schema'' (obj_get s ''$schema'')"
  proof -
    have "map_of s' ''$schema'' = map_of (valueOf_amended s) ''$schema''"
      by (rule others) simp
    then have "obj_get s' ''$schema''
        = obj_get (truthy_part ''$schema'' (obj_get s ''$schema'')) ''$schema''"
      unfolding map_of_valueOf_amended by (rule obj_get_cong)
    then show ?thesis by (simp only: truthy_part_idem)
  qed
  have t2: "truthy_part ''if'' (obj_get s' ''if'') = truthy_part ''if'' (obj_get s ''if'')"
  proof -
    have "map_of s' ''if'' = map_of (valueOf_amended s) ''if''"
      by (rule others) simp
    then have "obj_get s' ''if'' = obj_get (truthy_part ''if'' (obj_get s ''if'')) ''if''"
      unfolding map_of_valueOf_amended by (rule obj_get_cong)
    then show ?thesis by (simp only: truthy_part_idem)
  qed
  have t3: "truthy_part ''then'' (obj_get s' ''then'') = truthy_part ''then'' (obj_get s ''then'')"
  proof -
    have "map_of s' ''then'' = map_of (valueOf_amended s) ''then''"
      by (rule others) simp
    then have "obj_get s' ''then'' = obj_get (truthy_part ''then'' (obj_get s ''then'')) ''then''"
      unfolding map_of_valueOf_amended by (rule obj_get_cong)
    then show ?thesis by (simp only: truthy_part_idem)
  qed
  have t4: "truthy_part ''else'' (obj_get s' ''else'') = truthy_part ''else'' (obj_get s ''else'')"
  proof -
    have "map_of s' ''else'' = map_of (valueOf_amended s) ''else''"
      by (rule others) simp
    then have "obj_get s' ''else'' = obj_get (truthy_part ''else'' (obj_get s ''else'')) ''else''"
      unfolding map_of_valueOf_amended by (rule obj_get_cong)
    then show ?thesis by (simp only: truthy_part_idem)
  qed
  have o: "set (other_attributes s') = set (other_attributes s)"
  proof (rule set_other_attributes[OF d d'])
    fix k
    assume k: "k \<notin> set [''properties'', ''definitions'', ''required'', ''$schema'',
                          ''if'', ''then'', ''else'']"
    then have "k \<notin> set [''definitions'', ''properties'', ''required'']"
      by (simp only: list.set insert_iff empty_iff de_Morgan_disj simp_thms)
    then have "map_of s' k = map_of (valueOf_amended s) k"
      by (rule others)
    also have "\<dots> = map_of s k"
      using k by (rule map_of_valueOf_amended_other)
    finally show "map_of s' k = map_of s k" .
  qed
  have "set (valueOf_amended s') = set (valueOf_amended s)"
    unfolding valueOf_amended_def by (simp only: set_append t1 t2 t3 t4 fd fp rq o)
  with distinct_valueOf_amended[OF d] distinct_valueOf_amended[OF d'] show ?thesis
    by (simp only: same_entries_def simp_thms)
qed

lemma raw_props_filter:
  "raw_props (JObj out) =
     filter (\<lambda>kv. fst kv \<notin> set [''type'', ''definitions'', ''properties'', ''required'']) out"
  unfolding raw_props_def own_entries.simps obj_del_filter filter_keys_filter
  by (simp only: append.simps)

lemma raw_state:
  assumes dout: "distinct (map fst out)" and da: "distinct (map fst a)"
    and ka: "set (map fst a) \<subseteq> set ks"
  shows "distinct (map fst (obj_assign a (filter (\<lambda>kv. fst kv \<notin> set ks) out)))"
    and "\<And>k. k \<in> set ks \<Longrightarrow>
           map_of (obj_assign a (filter (\<lambda>kv. fst kv \<notin> set ks) out)) k = map_of a k"
    and "\<And>k. k \<notin> set ks \<Longrightarrow>
           map_of (obj_assign a (filter (\<lambda>kv. fst kv \<notin> set ks) out)) k = map_of out k"
proof -
  let ?b = "filter (\<lambda>kv. fst kv \<notin> set ks) out"
  have db: "distinct (map fst ?b)"
    using dout by (rule distinct_map_filter)
  show "distinct (map fst (obj_assign a ?b))"
    using da by (rule distinct_obj_assign)
  show "map_of (obj_assign a ?b) k = map_of a k" if "k \<in> set ks" for k
    using that by (simp add: map_of_obj_assign[OF db] map_add_def map_of_filter_keys)
  show "map_of (obj_assign a ?b) k = map_of out k" if "k \<notin> set ks" for k
  proof -
    from that ka have "k \<notin> set (map fst a)" by blast
    then have "map_of a k = None" by (simp add: map_of_eq_None_iff)
    with that show ?thesis
      by (simp add: map_of_obj_assign[OF db] map_add_def map_of_filter_keys split: option.splits)
  qed
qed

lemma flattened_part_absent:
  "map_of (flattened_part k l) k = None \<Longrightarrow> flattened_part k l = []"
  by (simp add: flattened_part_def split: jsval.splits list.splits)

lemma nonempty_part_absent:
  "map_of (nonempty_part k l) k = None \<Longrightarrow> nonempty_part k l = []"
  by (simp add: nonempty_part_def split: jsval.splits list.splits)

lemma obj_get_absent: "map_of s k = None \<Longrightarrow> obj_get s k = JUndef"
  by (simp add: obj_get_def)

lemma map_of_absent: "k \<notin> set (map fst s) \<Longrightarrow> map_of s k = None"
  by (simp add: map_of_eq_None_iff)

lemma map_of_present: "obj_get s k = JStr t \<Longrightarrow> map_of s k = Some (obj_get s k)"
  by (simp add: obj_get_def split: option.splits)

lemma roundtrip_plain:
  assumes js: "js_state s"
    and a: "distinct (map fst a)" "set (map fst a) \<subseteq> {''type''}"
      "map_of a ''type'' = map_of (valueOf_amended s) ''type''"
    and no: "''definitions'' \<notin> set (map fst (valueOf_amended s))"
      "''properties'' \<notin> set (map fst (valueOf_amended s))"
      "''required'' \<notin> set (map fst (valueOf_amended s))"
    and s': "s' = obj_assign a (raw_props (JObj (valueOf_amended s)))"
  shows "wf_state s'"
    and "\<not> unresolved_sentinel (obj_get s' ''required'')"
    and "same_entries (valueOf_amended s') (valueOf_amended s)"
proof -
  let ?out = "valueOf_amended s"
  let ?ks = "[''type'', ''definitions'', ''properties'', ''required'']"
  from js have d: "distinct (map fst s)"
    by (simp add: js_state_def wf_state_def)
  have dout: "distinct (map fst ?out)"
    using d by (rule distinct_valueOf_amended)
  have "{''type''} \<subseteq> set ?ks" by simp
  with a(2) have ka: "set (map fst a) \<subseteq> set ?ks" by (rule subset_trans)
  have s'': "s' = obj_assign a (filter (\<lambda>kv. fst kv \<notin> set ?ks) ?out)"
    by (simp only: s' raw_props_filter)
  note st = raw_state[OF dout a(1) ka, folded s'']
  have ma: "map_of a k = None" if "k \<noteq> ''type''" for k
    using that a(2) by (intro map_of_absent) blast
  have m1: "map_of s' ''definitions'' = None"
  proof -
    have "map_of s' ''definitions'' = map_of a ''definitions''" by (rule st(2)) simp
    also have "\<dots> = None" by (rule ma) simp
    finally show ?thesis .
  qed
  have m2: "map_of s' ''properties'' = None"
  proof -
    have "map_of s' ''properties'' = map_of a ''properties''" by (rule st(2)) simp
    also have "\<dots> = None" by (rule ma) simp
    finally show ?thesis .
  qed
  have m3: "map_of s' ''required'' = None"
  proof -
    have "map_of s' ''required'' = map_of a ''required''" by (rule st(2)) simp
    also have "\<dots> = None" by (rule ma) simp
    finally show ?thesis .
  qed
  note g = obj_get_absent[OF m1] obj_get_absent[OF m2] obj_get_absent[OF m3]
  show "wf_state s'"
    unfolding wf_state_def g using st(1) by simp
  show "\<not> unresolved_sentinel (obj_get s' ''required'')"
    unfolding g by (simp add: unresolved_sentinel_def)
  have others: "map_of s' k = map_of ?out k"
    if k: "k \<notin> set [''definitions'', ''properties'', ''required'']" for k
  proof (cases "k = ''type''")
    case True
    have "map_of s' ''type'' = map_of a ''type''" by (rule st(2)) simp
    with a(3) True show ?thesis by simp
  next
    case False
    with k have "k \<notin> set ?ks"
      by (simp only: list.set insert_iff empty_iff de_Morgan_disj simp_thms)
    then show ?thesis by (rule st(3))
  qed
  have fd: "flattened_part ''definitions'' (obj_get s' ''definitions'')
      = flattened_part ''definitions'' (obj_get s ''definitions'')"
  proof -
    have "map_of (flattened_part ''definitions'' (obj_get s ''definitions'')) ''definitions'' = None"
      using map_of_absent[OF no(1)] by (simp only: map_of_valueOf_amended)
    then have "flattened_part ''definitions'' (obj_get s ''definitions'') = []"
      by (rule flattened_part_absent)
    then show ?thesis
      unfolding g by (simp add: flattened_part_def)
  qed
  have fp: "flattened_part ''properties'' (obj_get s' ''properties'')
      = flattened_part ''properties'' (obj_get s ''properties'')"
  proof -
    have "map_of (flattened_part ''properties'' (obj_get s ''properties'')) ''properties'' = None"
      using map_of_absent[OF no(2)] by (simp only: map_of_valueOf_amended)
    then have "flattened_part ''properties'' (obj_get s ''properties'') = []"
      by (rule flattened_part_absent)
    then show ?thesis
      unfolding g by (simp add: flattened_part_def)
  qed
  have rq: "nonempty_part ''required'' (obj_get s' ''required'')
      = nonempty_part ''required'' (obj_get s ''required'')"
  proof -
    have "map_of (nonempty_part ''required'' (obj_get s ''required'')) ''required'' = None"
      using map_of_absent[OF no(3)] by (simp only: map_of_valueOf_amended)
    then have "nonempty_part ''required'' (obj_get s ''required'') = []"
      by (rule nonempty_part_absent)
    then show ?thesis
      unfolding g by (simp add: nonempty_part_def)
  qed
  show "same_entries (valueOf_amended s') (valueOf_amended s)"
    using d st(1) others fd fp rq by (rule valueOf_amended_same)
qed

lemma obj_get_Some: "map_of s k = Some v \<Longrightarrow> obj_get s k = v"
  by (simp add: obj_get_def)

lemma base_schema_raw_object:
  "base_schema (raw_object (JObj out)) =
     obj_assign
       [(''type'', obj_get out ''type''),
        (''definitions'', js_or (toArray (obj_get out ''definitions'')) (JArr [])),
        (''properties'', js_or (toArray (obj_get out ''properties'')) (JArr [])),
        (''required'', js_or (obj_get out ''required'') (JArr []))]
       (raw_props (JObj out))"
  by (simp add: raw_object_def construct_def)

lemma roundtrip_object:
  assumes js: "js_state s"
    and ns: "\<not> unresolved_sentinel (obj_get s ''required'')"
    and ty: "obj_get (valueOf_amended s) ''type'' = JStr t"
    and s': "s' = base_schema (raw_object (JObj (valueOf_amended s)))"
  shows "wf_state s'"
    and "\<not> unresolved_sentinel (obj_get s' ''required'')"
    and "same_entries (valueOf_amended s') (valueOf_amended s)"
proof -
  let ?out = "valueOf_amended s"
  let ?ks = "[''type'', ''definitions'', ''properties'', ''required'']"
  let ?D = "js_or (toArray (obj_get ?out ''definitions'')) (JArr [])"
  let ?P = "js_or (toArray (obj_get ?out ''properties'')) (JArr [])"
  let ?R = "js_or (obj_get ?out ''required'') (JArr [])"
  let ?a = "[(''type'', obj_get ?out ''type''), (''definitions'', ?D), (''properties'', ?P),
             (''required'', ?R)]"
  from js have d: "distinct (map fst s)"
    and eld: "entry_list (obj_get s ''definitions'')"
    and elp: "entry_list (obj_get s ''properties'')"
    and ded: "distinct_entries (obj_get s ''definitions'')"
    and dep: "distinct_entries (obj_get s ''properties'')"
    and arr: "absent_or_array (obj_get s ''required'')"
    by (simp_all add: js_state_def wf_state_def)
  have dout: "distinct (map fst ?out)"
    using d by (rule distinct_valueOf_amended)
  have da: "distinct (map fst ?a)" by simp
  have ka: "set (map fst ?a) \<subseteq> set ?ks" by simp
  have s'': "s' = obj_assign ?a (filter (\<lambda>kv. fst kv \<notin> set ?ks) ?out)"
    by (simp only: s' base_schema_raw_object raw_props_filter)
  note st = raw_state[OF dout da ka, folded s'']
  have m0: "map_of s' ''type'' = Some (obj_get ?out ''type'')"
  proof -
    have "map_of s' ''type'' = map_of ?a ''type''" by (rule st(2)) simp
    then show ?thesis by simp
  qed
  have m1: "map_of s' ''definitions'' = Some ?D"
  proof -
    have "map_of s' ''definitions'' = map_of ?a ''definitions''" by (rule st(2)) simp
    then show ?thesis by simp
  qed
  have m2: "map_of s' ''properties'' = Some ?P"
  proof -
    have "map_of s' ''properties'' = map_of ?a ''properties''" by (rule st(2)) simp
    then show ?thesis by simp
  qed
  have m3: "map_of s' ''required'' = Some ?R"
  proof -
    have "map_of s' ''required'' = map_of ?a ''required''" by (rule st(2)) simp
    then show ?thesis by simp
  qed
  have od: "obj_get ?out ''definitions''
      = obj_get (flattened_part ''definitions'' (obj_get s ''definitions'')) ''definitions''"
    by (rule obj_get_cong) (rule map_of_valueOf_amended)
  have op: "obj_get ?out ''properties''
      = obj_get (flattened_part ''properties'' (obj_get s ''properties'')) ''properties''"
    by (rule obj_get_cong) (rule map_of_valueOf_amended)
  have or: "obj_get ?out ''required''
      = obj_get (nonempty_part ''required'' (obj_get s ''required'')) ''required''"
    by (rule obj_get_cong) (rule map_of_valueOf_amended)
  have g1: "obj_get s' ''definitions''
      = js_or (toArray (obj_get (flattened_part ''definitions'' (obj_get s ''definitions''))
          ''definitions'')) (JArr [])"
    unfolding od[symmetric] using m1 by (rule obj_get_Some)
  have g2: "obj_get s' ''properties''
      = js_or (toArray (obj_get (flattened_part ''properties'' (obj_get s ''properties''))
          ''properties'')) (JArr [])"
    unfolding op[symmetric] using m2 by (rule obj_get_Some)
  have g3: "obj_get s' ''required''
      = js_or (obj_get (nonempty_part ''required'' (obj_get s ''required'')) ''required'')
          (JArr [])"
    unfolding or[symmetric] using m3 by (rule obj_get_Some)
  note fd = flattened_part_toArray[OF eld ded, of "''definitions''", folded g1]
  note fp = flattened_part_toArray[OF elp dep, of "''properties''", folded g2]
  note rq = nonempty_part_required[OF arr, of "''required''", folded g3]
  show "wf_state s'"
    unfolding wf_state_def using st(1) fd(2) fp(2) rq(2) by (simp only: simp_thms)
  show "\<not> unresolved_sentinel (obj_get s' ''required'')"
    using ns by (rule rq(3))
  have others: "map_of s' k = map_of ?out k"
    if k: "k \<notin> set [''definitions'', ''properties'', ''required'']" for k
  proof (cases "k = ''type''")
    case True
    from m0 map_of_present[OF ty] True show ?thesis by simp
  next
    case False
    with k have "k \<notin> set ?ks"
      by (simp only: list.set insert_iff empty_iff de_Morgan_disj simp_thms)
    then show ?thesis by (rule st(3))
  qed
  show "same_entries (valueOf_amended s') (valueOf_amended s)"
    using d st(1) others fd(1) fp(1) rq(1) by (rule valueOf_amended_same)
qed

lemma RawSchema_object:
  "obj_get out ''type'' = JStr ''object'' \<Longrightarrow> RawSchema (JObj out) = Inr (raw_object (JObj out))"
  by (simp add: RawSchema_def Let_def)

lemma base_schema_raw_typed:
  "base_schema (raw_typed k f (JObj out)) =
     obj_assign [(''type'', obj_get out ''type'')] (raw_props (JObj out))"
  by (simp add: raw_typed_def construct_def)

lemma RawSchema_typed:
  assumes "obj_get out ''type'' \<in> set [JStr ''string'', JStr ''number'', JStr ''integer'',
                                        JStr ''boolean'', JStr ''array'']"
  shows "\<exists>k f. RawSchema (JObj out) = Inr (raw_typed k f (JObj out))"
proof -
  from assms consider "obj_get out ''type'' = JStr ''string''"
    | "obj_get out ''type'' = JStr ''number''" | "obj_get out ''type'' = JStr ''integer''"
    | "obj_get out ''type'' = JStr ''boolean''" | "obj_get out ''type'' = JStr ''array''"
    by (simp only: list.set insert_iff empty_iff) blast
  then show ?thesis
    by cases ((simp add: RawSchema_def Let_def, blast)+)
qed

lemma RawSchema_base:
  assumes "''type'' \<notin> set (map fst out)"
  shows "\<exists>r. RawSchema (JObj out) = Inr r \<and> base_schema r = raw_props (JObj out)"
proof -
  have "obj_get out ''type'' = JUndef"
    using assms by (intro obj_get_absent map_of_absent)
  then show ?thesis
    by (simp add: RawSchema_def Let_def construct_def)
qed

lemma valueOf_wf:
  assumes "wf_state (base_schema r)" and "\<not> unresolved_sentinel (obj_get (base_schema r) ''required'')"
  shows "valueOf r True = Inr (valueOf_amended (base_schema r))"
  using assms(2) unfolding valueOf_def valueOf_schema_wf[OF assms(1)] by simp

subsection \<open>Presence and truthiness\<close>

lemma truthy_part_present:
  "truthy_in s k \<Longrightarrow> truthy_part k (obj_get s k) = present_part k s"
  by (simp add: truthy_in_def truthy_part_def present_part_def obj_get_def split: option.splits)

lemma valueOf_amended_claimed:
  assumes "truthy_in s ''$schema''" "truthy_in s ''if''" "truthy_in s ''then''"
    "truthy_in s ''else''"
  shows "valueOf_amended s = valueOf_claimed s"
  unfolding valueOf_amended_def valueOf_claimed_def
  by (simp only: assms truthy_part_present)

subsection \<open>A keyword or fragment that the last entry does not have\<close>






section \<open>Properties\<close>

subsection \<open>Chains evaluated\<close>

text \<open>
  C2. \<^verbatim>\<open>S.object().prop('a', S.string()).required().valueOf()\<close> returns exactly
  \<^verbatim>\<open>{ $schema: 'http://json-schema.org/draft-07/schema#', type: 'object',
     properties: { a: { type: 'string' } }, required: ['a'] }\<close>, with the keys in this order:
  the call of \<^verbatim>\<open>required\<close> without argument takes the name of the property declared just
  before it and appends it to the required list of the root.
\<close>

theorem C2_required_after_prop:
  "ebind FluentJSONSchema_object (\<lambda>b.
   ebind FluentJSONSchema_string (\<lambda>s.
   ebind (ObjectSchema_prop b (JStr ''a'') (Fluent s)) (\<lambda>b1.
   ebind (required b1 JUndef) (\<lambda>b2. valueOf b2 True))))
   = Inr [(''$schema'', JStr ''http://json-schema.org/draft-07/schema#''),
          (''type'', JStr ''object''),
          (''properties'', JObj [(''a'', JObj [(''type'', JStr ''string'')])]),
          (''required'', JArr [JStr ''a''])]"
  by code_simp

text \<open>
  C1, at the input where the code departs from it. With \<^verbatim>\<open>const b = S.object()\<close>, the call
  \<^verbatim>\<open>b.prop('a', S.string().required())\<close> leaves \<^verbatim>\<open>b.valueOf()\<close> as it was, but assigns the
  patched schema, whose required list is \<^verbatim>\<open>['a']\<close>, to the variable \<^verbatim>\<open>schema\<close> that the
  methods \<^verbatim>\<open>prop\<close>, \<^verbatim>\<open>id\<close>, \<^verbatim>\<open>only\<close>, ... of \<^verbatim>\<open>b\<close> read. Afterwards \<^verbatim>\<open>b.prop('c')\<close>
  serializes with \<^verbatim>\<open>required: ['a']\<close>, which it does not before the call.
\<close>

theorem C1_prop_assigns_schema_of_receiver:
  "ebind FluentJSONSchema_object (\<lambda>b.
   ebind FluentJSONSchema_string (\<lambda>s.
   ebind (required s JUndef) (\<lambda>s1.
     case prop_st b (JStr ''a'') (Fluent s1) of (b', r) \<Rightarrow>
       ebind (valueOf b True) (\<lambda>before.
       ebind (valueOf b' True) (\<lambda>after.
       ebind (ObjectSchema_prop b (JStr ''c'') (Plain JUndef)) (\<lambda>c0.
       ebind (valueOf c0 True) (\<lambda>v0.
       ebind (ObjectSchema_prop b' (JStr ''c'') (Plain JUndef)) (\<lambda>c1.
       ebind (valueOf c1 True) (\<lambda>v1.
         Inr (before = after, obj_get (schema b) ''required'', obj_get (schema b') ''required'',
              v0, v1))))))))))
   = Inr (True, JArr [], JArr [JStr ''a''],
          [(''$schema'', JStr ''http://json-schema.org/draft-07/schema#''),
           (''type'', JStr ''object''),
           (''properties'', JObj [(''c'', JObj [])])],
          [(''$schema'', JStr ''http://json-schema.org/draft-07/schema#''),
           (''type'', JStr ''object''),
           (''properties'', JObj [(''c'', JObj [])]),
           (''required'', JArr [JStr ''a''])])"
  by code_simp

text \<open>
  C7, at the input where the code departs from it. The test of \<^verbatim>\<open>id\<close> is \<^verbatim>\<open>!id\<close>, which
  the string \<^verbatim>\<open>'#'\<close> passes: \<^verbatim>\<open>S.string().id('#')\<close> and \<^verbatim>\<open>S.object().id('#')\<close> return
  builders whose \<^verbatim>\<open>$id\<close> is \<^verbatim>\<open>'#'\<close>, although the message of the error names the empty
  fragment. The empty string is refused by both methods, on every builder.
\<close>

theorem C7_id_accepts_bare_fragment:
  "ebind FluentJSONSchema_string (\<lambda>s.
   ebind (BaseSchema_id s (JStr ''#'')) (\<lambda>s1. valueOf s1 True))
   = Inr [(''$schema'', JStr ''http://json-schema.org/draft-07/schema#''),
          (''type'', JStr ''string''), (''$id'', JStr ''#'')]
   \<and> ebind FluentJSONSchema_object (\<lambda>b.
     ebind (ObjectSchema_id b (JStr ''#'')) (\<lambda>b1. valueOf b1 True))
   = Inr [(''$schema'', JStr ''http://json-schema.org/draft-07/schema#''),
          (''type'', JStr ''object''), (''$id'', JStr ''#'')]
   \<and> BaseSchema_id b (JStr []) = Inl FluentSchemaError
   \<and> ObjectSchema_id b (JStr []) = Inl FluentSchemaError"
proof -
  have "BaseSchema_id b (JStr []) = Inl FluentSchemaError"
    by (simp add: BaseSchema_id_def)
  moreover have "ObjectSchema_id b (JStr []) = Inl FluentSchemaError"
    by (simp add: ObjectSchema_id_def)
  moreover have "ebind FluentJSONSchema_string (\<lambda>s.
      ebind (BaseSchema_id s (JStr ''#'')) (\<lambda>s1. valueOf s1 True))
    = Inr [(''$schema'', JStr ''http://json-schema.org/draft-07/schema#''),
           (''type'', JStr ''string''), (''$id'', JStr ''#'')]"
    by code_simp
  moreover have "ebind FluentJSONSchema_object (\<lambda>b.
      ebind (ObjectSchema_id b (JStr ''#'')) (\<lambda>b1. valueOf b1 True))
    = Inr [(''$schema'', JStr ''http://json-schema.org/draft-07/schema#''),
           (''type'', JStr ''object''), (''$id'', JStr ''#'')]"
    by code_simp
  ultimately show ?thesis by simp
qed

text \<open>
  C10, at the inputs where the code departs from it. The test of \<^verbatim>\<open>RawSchema\<close> is
  \<^verbatim>\<open>typeof schema !== 'object'\<close>, which an array and \<^verbatim>\<open>null\<close> pass: \<^verbatim>\<open>S.raw([])\<close> returns a
  builder (of an empty schema) and \<^verbatim>\<open>S.raw(null)\<close> throws a TypeError at the
  destructuring. Numbers, strings and booleans are refused with FluentSchemaError.
\<close>

theorem C10_raw_accepts_array_and_null:
  "FluentJSONSchema_raw (JArr []) =
     Inr \<lparr>made_by = BaseSchema, base_schema = [], schema = [],
          opts = \<lparr>generateIds = False, factory = Some BaseSchema\<rparr>\<rparr>
   \<and> FluentJSONSchema_raw JNull = Inl TypeError
   \<and> FluentJSONSchema_raw (JNum n) = Inl FluentSchemaError
   \<and> FluentJSONSchema_raw (JStr s) = Inl FluentSchemaError
   \<and> FluentJSONSchema_raw (JBool t) = Inl FluentSchemaError"
  by (simp add: FluentJSONSchema_raw_def S_raw_def RawSchema_def raw_props_def obj_del_def
        construct_def)

subsection \<open>Serialization\<close>

text \<open>
  C5 as the claim states it does not hold. The claim puts \<^verbatim>\<open>else\<close> into the output when it
  is present. The state of \<^verbatim>\<open>S.string().raw({ else: false })\<close> is well formed and holds
  the key \<^verbatim>\<open>else\<close>, and \<^verbatim>\<open>valueOf()\<close> returns \<^verbatim>\<open>$schema\<close> and \<^verbatim>\<open>type\<close> only, where the
  output of the claim ends with \<^verbatim>\<open>else: false\<close>: the code tests \<^verbatim>\<open>schema.else\<close> for
  truthiness, as it does \<^verbatim>\<open>$schema\<close>, \<^verbatim>\<open>if\<close> and \<^verbatim>\<open>then\<close>.
\<close>

theorem C5_falsy_else_is_dropped:
  "ebind FluentJSONSchema_string (\<lambda>s0.
   ebind (raw s0 (JObj [(''else'', JBool False)])) (\<lambda>s1.
   Inr (wf_state (base_schema s1), ordinary_state (base_schema s1),
        map_of (base_schema s1) ''else'', valueOf s1 True, valueOf_claimed (base_schema s1))))
   = Inr (True, True, Some (JBool False),
          Inr [(''$schema'', JStr ''http://json-schema.org/draft-07/schema#''),
               (''type'', JStr ''string'')],
          [(''$schema'', JStr ''http://json-schema.org/draft-07/schema#''),
           (''type'', JStr ''string''), (''else'', JBool False)])"
  by code_simp

text \<open>
  C5, amended. For every well-formed builder state whose root keys and entry names are
  ordinary (none made of digits only, as an array index is, and none \<^verbatim>\<open>__proto__\<close>),
  \<^verbatim>\<open>valueOf\<close> fails at the root when a required entry is not a string, and otherwise
  returns the object with the keys in this order: \<^verbatim>\<open>$schema\<close> if its value is truthy,
  \<^verbatim>\<open>definitions\<close> flattened unless empty, the other root attributes except \<^verbatim>\<open>if\<close>,
  \<^verbatim>\<open>then\<close>, \<^verbatim>\<open>else\<close>, \<^verbatim>\<open>properties\<close> flattened unless empty, \<^verbatim>\<open>required\<close> unless empty, then
  \<^verbatim>\<open>if\<close>, \<^verbatim>\<open>then\<close>, \<^verbatim>\<open>else\<close>, each if its value is truthy. On a state where each of
  \<^verbatim>\<open>$schema\<close>, \<^verbatim>\<open>if\<close>, \<^verbatim>\<open>then\<close> and \<^verbatim>\<open>else\<close> is absent or truthy, this is the output of the
  claim. The function \<^verbatim>\<open>flat\<close> of the code maps every name to the remaining fields of
  the last entry of that name, the keys in the order of the first entries, when the
  names are ordinary.
\<close>

theorem C5_valueOf_key_order:
  "(wf_state (base_schema b) \<and> ordinary_state (base_schema b) \<longrightarrow>
      valueOf b isRoot =
        (if isRoot \<and> unresolved_sentinel (obj_get (base_schema b) ''required'')
         then Inl FluentSchemaError
         else Inr (valueOf_amended (base_schema b))))
   \<and> (truthy_in s ''$schema'' \<and> truthy_in s ''if'' \<and> truthy_in s ''then'' \<and> truthy_in s ''else''
        \<longrightarrow> valueOf_amended s = valueOf_claimed s)
   \<and> (list_all named_entry es \<and> ordinary_names (JArr es) \<longrightarrow>
        flat (JArr es) = Inr (flatten_spec es))"
  using valueOf_amended_claimed[of s]
  by (simp add: valueOf_def valueOf_schema_wf flat_def flat_reduce_named)

theorem C5_valueOf_key_order_witness:
  "wf_state (base_schema example_builder) \<and> ordinary_state (base_schema example_builder)
   \<and> valueOf example_builder True =
       Inr [(''$schema'', JStr ''http://json-schema.org/draft-07/schema#''),
            (''definitions'', JObj [(''d'', JObj [(''type'', JStr ''null'')])]),
            (''type'', JStr ''object''),
            (''title'', JStr ''t''),
            (''properties'',
               JObj [(''a'', JObj [(''type'', JStr ''number''), (''minimum'', JNum 0)]),
                     (''b'', JObj [])]),
            (''required'', JArr [JStr ''a'']),
            (''if'', JObj [(''minProperties'', JNum 1)]),
            (''then'', JObj [(''maxProperties'', JNum 2)]),
            (''else'', JObj [(''maxProperties'', JNum 0)])]
   \<and> truthy_in example_state ''$schema'' \<and> truthy_in example_state ''if''
   \<and> truthy_in example_state ''then'' \<and> truthy_in example_state ''else''
   \<and> valueOf_amended example_state = valueOf_claimed example_state
   \<and> list_all named_entry [JObj [(''name'', JStr ''a''), (''x'', JNum 1)],
                            JObj [(''name'', JStr ''b'')],
                            JObj [(''name'', JStr ''a''), (''y'', JNum 2)]]
   \<and> ordinary_names (JArr [JObj [(''name'', JStr ''a''), (''x'', JNum 1)],
                            JObj [(''name'', JStr ''b'')],
                            JObj [(''name'', JStr ''a''), (''y'', JNum 2)]])
   \<and> flat (JArr [JObj [(''name'', JStr ''a''), (''x'', JNum 1)],
                  JObj [(''name'', JStr ''b'')],
                  JObj [(''name'', JStr ''a''), (''y'', JNum 2)]])
       = Inr [(''a'', JObj [(''y'', JNum 2)]), (''b'', JObj [])]"
proof -
  have wf: "wf_state (base_schema example_builder)"
    by code_simp
  have ord: "ordinary_state (base_schema example_builder)"
    by code_simp
  have sentinel: "\<not> unresolved_sentinel (obj_get (base_schema example_builder) ''required'')"
    by code_simp
  have spec: "valueOf_amended (base_schema example_builder) =
       [(''$schema'', JStr ''http://json-schema.org/draft-07/schema#''),
        (''definitions'', JObj [(''d'', JObj [(''type'', JStr ''null'')])]),
        (''type'', JStr ''object''),
        (''title'', JStr ''t''),
        (''properties'',
           JObj [(''a'', JObj [(''type'', JStr ''number''), (''minimum'', JNum 0)]),
                 (''b'', JObj [])]),
        (''required'', JArr [JStr ''a'']),
        (''if'', JObj [(''minProperties'', JNum 1)]),
        (''then'', JObj [(''maxProperties'', JNum 2)]),
        (''else'', JObj [(''maxProperties'', JNum 0)])]"
    by code_simp
  have tr: "truthy_in example_state ''$schema''" "truthy_in example_state ''if''"
    "truthy_in example_state ''then''" "truthy_in example_state ''else''"
    by code_simp+
  let ?es = "[JObj [(''name'', JStr ''a''), (''x'', JNum 1)],
              JObj [(''name'', JStr ''b'')],
              JObj [(''name'', JStr ''a''), (''y'', JNum 2)]]"
  have named: "list_all named_entry ?es"
    by code_simp
  have names: "ordinary_names (JArr ?es)"
    by code_simp
  have flatten: "flatten_spec ?es = [(''a'', JObj [(''y'', JNum 2)]), (''b'', JObj [])]"
    by code_simp
  from C5_valueOf_key_order[of example_builder True example_state ?es] wf ord sentinel tr
    named names
  have "valueOf example_builder True = Inr (valueOf_amended (base_schema example_builder))"
    and "valueOf_amended example_state = valueOf_claimed example_state"
    and "flat (JArr ?es) = Inr (flatten_spec ?es)"
    by simp_all
  with wf ord tr named names show ?thesis
    by (simp only: spec flatten simp_thms)
qed

text \<open>
  C8 as the claim states it does not hold: \<^verbatim>\<open>S.string().valueOf({ isRoot: false })\<close> still
  carries \<^verbatim>\<open>$schema\<close>. The flag \<^verbatim>\<open>isRoot\<close> only guards the check of the required
  list.
\<close>

theorem C8_valueOf_not_root_keeps_schema:
  "FluentJSONSchema_string = Inr example_string
   \<and> valueOf example_string False =
       Inr [(''$schema'', JStr ''http://json-schema.org/draft-07/schema#''),
            (''type'', JStr ''string'')]"
  by code_simp

text \<open>
  C8, amended. For every builder whose state carries \<^verbatim>\<open>$schema\<close>, the output of
  \<^verbatim>\<open>valueOf\<close> includes it with the value of the state, whether \<^verbatim>\<open>isRoot\<close> is true or
  false. The operations that embed a sub-schema remove it: the entry that \<^verbatim>\<open>prop\<close>
  builds has no key \<^verbatim>\<open>$schema\<close>, and neither has a member of \<^verbatim>\<open>allOf\<close>, \<^verbatim>\<open>anyOf\<close> or
  \<^verbatim>\<open>oneOf\<close>.
\<close>

theorem C8_schema_kept_by_valueOf_removed_by_embedding:
  "(truthy (obj_get (base_schema b) ''$schema'') \<and> valueOf b isRoot = Inr out \<longrightarrow>
      map_of out ''$schema'' = Some (obj_get (base_schema b) ''$schema''))
   \<and> ''$schema'' \<notin> set (map fst (own_entries (prop_entry name attributes did)))
   \<and> (compose_values schemas = Inr vs \<and> v \<in> set vs \<longrightarrow>
        ''$schema'' \<notin> set (map fst (own_entries v)))"
  using valueOf_schema_includes_schema[of "base_schema b" isRoot out]
    schema_notin_prop_entry[of name attributes did]
    schema_notin_compose_values[of schemas vs v]
  by (simp only: valueOf_def) blast

theorem C8_schema_kept_by_valueOf_removed_by_embedding_witness:
  "truthy (obj_get (base_schema example_string) ''$schema'')
   \<and> valueOf example_string False =
       Inr [(''$schema'', JStr ''http://json-schema.org/draft-07/schema#''),
            (''type'', JStr ''string'')]
   \<and> map_of [(''$schema'', JStr ''http://json-schema.org/draft-07/schema#''),
              (''type'', JStr ''string'')] ''$schema''
       = Some (obj_get (base_schema example_string) ''$schema'')
   \<and> compose_values [Fluent example_string] = Inr [JObj [(''type'', JStr ''string'')]]
   \<and> ''$schema'' \<notin> set (map fst (own_entries (JObj [(''type'', JStr ''string'')])))"
proof -
  have t: "truthy (obj_get (base_schema example_string) ''$schema'')"
    by code_simp
  have v: "valueOf example_string False =
       Inr [(''$schema'', JStr ''http://json-schema.org/draft-07/schema#''),
            (''type'', JStr ''string'')]"
    by code_simp
  have c: "compose_values [Fluent example_string] = Inr [JObj [(''type'', JStr ''string'')]]"
    by code_simp
  have m: "JObj [(''type'', JStr ''string'')] \<in> set [JObj [(''type'', JStr ''string'')]]"
    by simp
  from C8_schema_kept_by_valueOf_removed_by_embedding
         [of example_string False
             "[(''$schema'', JStr ''http://json-schema.org/draft-07/schema#''),
               (''type'', JStr ''string'')]"
             JUndef "[]" JUndef "[Fluent example_string]"
             "[JObj [(''type'', JStr ''string'')]]" "JObj [(''type'', JStr ''string'')]"]
    t v c m
  show ?thesis by blast
qed

subsection \<open>The required list\<close>



subsection \<open>Attribute targeting\<close>


text \<open>
  A keyword that the entry already has is a further case: after
  \<^verbatim>\<open>S.object().prop('x').title('a')\<close> the setter \<^verbatim>\<open>title('b')\<close> leaves the title \<^verbatim>\<open>'a'\<close>,
  where the same setter at the root replaces the title. The statement below says
  nothing of that case.
\<close>

lemma setter_conflict_keeps_old_value:
  "ebind FluentJSONSchema_object (\<lambda>b0.
   ebind (ObjectSchema_prop b0 (JStr ''x'') (Plain JUndef)) (\<lambda>b1.
   ebind (title b1 (JStr ''a'')) (\<lambda>b2.
   ebind (title b2 (JStr ''b'')) (\<lambda>b3. valueOf b3 True))))
   = Inr [(''$schema'', JStr ''http://json-schema.org/draft-07/schema#''),
          (''type'', JStr ''object''),
          (''properties'', JObj [(''x'', JObj [(''title'', JStr ''a'')])])]
   \<and> ebind FluentJSONSchema_object (\<lambda>b0.
     ebind (title b0 (JStr ''a'')) (\<lambda>b1.
     ebind (title b1 (JStr ''b'')) (\<lambda>b2. valueOf b2 True)))
   = Inr [(''$schema'', JStr ''http://json-schema.org/draft-07/schema#''),
          (''type'', JStr ''object''),
          (''title'', JStr ''b'')]"
  by code_simp



subsection \<open>Generated identifiers\<close>

text \<open>
  C6 as the claim states it does not hold. With \<^verbatim>\<open>generateIds: true\<close> at the root, the
  chain of the repository's test of definitions,
  \<^verbatim>\<open>.object().definition('entity', S.object().prop('foo', S.string()).prop('bar', S.string()))
  .prop('prop').ref('entity')\<close>, serializes the property \<^verbatim>\<open>prop\<close> as its \<^verbatim>\<open>$ref\<close> alone,
  without \<^verbatim>\<open>$id\<close>, and the properties \<^verbatim>\<open>foo\<close> and \<^verbatim>\<open>bar\<close> nested in the definition
  without \<^verbatim>\<open>$id\<close>: a sub-schema with \<^verbatim>\<open>$ref\<close> gets no identifier, and \<^verbatim>\<open>definition\<close> gives
  none to the nested sub-schemas.
\<close>

theorem C6_ref_and_nested_definition_without_id:
  "ebind (S_object (withOptions \<lparr>generateIds = True, factory = None\<rparr>)) (\<lambda>b0.
   ebind FluentJSONSchema_object (\<lambda>f0.
   ebind FluentJSONSchema_string (\<lambda>s0.
   ebind (ObjectSchema_prop f0 (JStr ''foo'') (Fluent s0)) (\<lambda>f1.
   ebind (ObjectSchema_prop f1 (JStr ''bar'') (Fluent s0)) (\<lambda>f2.
   ebind (ObjectSchema_definition b0 (JStr ''entity'') (Fluent f2)) (\<lambda>b1.
   ebind (ObjectSchema_prop b1 (JStr ''prop'') (Plain JUndef)) (\<lambda>b2.
   ebind (ref b2 (JStr ''entity'')) (\<lambda>b3. valueOf b3 True))))))))
   = Inr [(''$schema'', JStr ''http://json-schema.org/draft-07/schema#''),
          (''definitions'',
             JObj [(''entity'',
                JObj [(''type'', JStr ''object''),
                      (''properties'',
                         JObj [(''foo'', JObj [(''type'', JStr ''string'')]),
                               (''bar'', JObj [(''type'', JStr ''string'')])]),
                      (''$id'', JStr ''#definitions/entity'')])]),
          (''type'', JStr ''object''),
          (''properties'', JObj [(''prop'', JObj [(''$ref'', JStr ''entity'')])])]"
  by code_simp

text \<open>
  A nested property with an identifier of its own is a further case: in
  \<^verbatim>\<open>.object().prop('foo', S.object().prop('bar', S.string().id('myId')).required())\<close>
  the property \<^verbatim>\<open>bar\<close> is serialized with the \<^verbatim>\<open>$id\<close> \<^verbatim>\<open>'#properties/foo/myId'\<close>, where
  \<^verbatim>\<open>prop\<close> keeps the explicit \<^verbatim>\<open>$id\<close> of its own sub-schema as it is. The statement
  below says nothing of that case.
\<close>

lemma nested_explicit_id_is_prefixed:
  "ebind (S_object (withOptions \<lparr>generateIds = True, factory = None\<rparr>)) (\<lambda>b0.
   ebind FluentJSONSchema_object (\<lambda>f0.
   ebind FluentJSONSchema_string (\<lambda>s0.
   ebind (BaseSchema_id s0 (JStr ''myId'')) (\<lambda>s1.
   ebind (ObjectSchema_prop f0 (JStr ''bar'') (Fluent s1)) (\<lambda>f1.
   ebind (required f1 JUndef) (\<lambda>f2.
   ebind (ObjectSchema_prop b0 (JStr ''foo'') (Fluent f2)) (\<lambda>b1. valueOf b1 True)))))))
   = Inr [(''$schema'', JStr ''http://json-schema.org/draft-07/schema#''),
          (''type'', JStr ''object''),
          (''properties'',
             JObj [(''foo'',
                JObj [(''type'', JStr ''object''),
                      (''properties'',
                         JObj [(''bar'', JObj [(''type'', JStr ''string''),
                                               (''$id'', JStr ''#properties/foo/myId'')])]),
                      (''required'', JArr [JStr ''bar'']),
                      (''$id'', JStr ''#properties/foo'')])])]"
  by code_simp

text \<open>
  C6, amended. Let the builder have \<^verbatim>\<open>generateIds\<close> set.

  Let \<^verbatim>\<open>prop(n, sub)\<close>, with \<open>sub\<close> a builder, return. The call appends an entry named \<open>n\<close>
  to the properties list. If the serialized sub-schema has a \<^verbatim>\<open>$ref\<close>, the entry is the
  name and the \<^verbatim>\<open>$ref\<close> alone and has no \<^verbatim>\<open>$id\<close>. Otherwise the \<^verbatim>\<open>$id\<close> of the entry is
  \<^verbatim>\<open>#properties/n\<close> when the sub-schema has none, and an explicit \<^verbatim>\<open>$id\<close> of the sub-schema
  (a non-empty string) is kept unchanged; each property \<open>key\<close> of the sub-schema that has
  no \<^verbatim>\<open>$id\<close> of its own gets the \<^verbatim>\<open>$id\<close> made of the \<^verbatim>\<open>$id\<close> of the entry followed by
  \<^verbatim>\<open>/properties/key\<close>.

  Let \<^verbatim>\<open>definition(n, sub)\<close> return, the serialized sub-schema being without \<^verbatim>\<open>$ref\<close>. The
  entry it appends to the definitions list has the \<^verbatim>\<open>$id\<close> \<^verbatim>\<open>#definitions/n\<close>, or the
  explicit \<^verbatim>\<open>$id\<close> of the sub-schema unchanged, and the properties of the sub-schema as
  they are, without new identifiers (the serialized sub-schema not having an attribute
  \<^verbatim>\<open>isFluentSchema\<close>, which would make \<^verbatim>\<open>prop\<close> take the copy for a builder).

  The chain of the specification, \<^verbatim>\<open>withOptions({ generateIds: true }).object().prop('foo',
  object().prop('bar', string()).required())\<close>, gives \<^verbatim>\<open>bar\<close> the \<^verbatim>\<open>$id\<close>
  \<^verbatim>\<open>#properties/foo/properties/bar\<close>.
\<close>

theorem C6_generated_ids:
  "(generateIds (opts b) \<and> valueOf sub False = Inr attrs
      \<and> ObjectSchema_prop b (JStr n) (Fluent sub) = Inr b' \<longrightarrow>
      (\<exists>es e. obj_get (base_schema b') ''properties'' = JArr (es @ [JObj e])
         \<and> obj_get e ''name'' = JStr n
         \<and> (truthy (obj_get attrs ''$ref'') \<longrightarrow>
              e = [(''name'', JStr n), (''$ref'', obj_get attrs ''$ref'')])
         \<and> (\<not> truthy (obj_get attrs ''$ref'') \<longrightarrow>
              (\<not> truthy (obj_get attrs ''$id'') \<longrightarrow>
                 obj_get e ''$id'' = JStr (''#properties/'' @ n))
              \<and> (\<forall>v. obj_get attrs ''$id'' = JStr v \<and> v \<noteq> [] \<longrightarrow> obj_get e ''$id'' = JStr v)
              \<and> (\<forall>props key p.
                    obj_get attrs ''properties'' = JObj props \<and> distinct (map fst props)
                    \<and> map_of props key = Some p \<and> \<not> truthy (get p ''$id'') \<longrightarrow>
                    (\<exists>ps p' pid.
                       obj_get e ''properties'' = JObj ps \<and> map_of ps key = Some (JObj p')
                       \<and> to_str (entry_id True ''properties'' n attrs) = Inr pid
                       \<and> obj_get p' ''$id'' = JStr (pid @ ''/properties/'' @ key))))))
   \<and> (generateIds (opts b) \<and> valueOf sub False = Inr attrs
      \<and> ObjectSchema_definition b (JStr n) (Fluent sub) = Inr b'' \<longrightarrow>
      (\<exists>es e. obj_get (base_schema b'') ''definitions'' = JArr (es @ [JObj e])
         \<and> (\<not> truthy (obj_get attrs ''$ref'') \<longrightarrow>
              (\<not> truthy (obj_get attrs ''$id'') \<longrightarrow>
                 obj_get e ''$id'' = JStr (''#definitions/'' @ n))
              \<and> (\<forall>v. obj_get attrs ''$id'' = JStr v \<and> v \<noteq> [] \<longrightarrow> obj_get e ''$id'' = JStr v)
              \<and> (\<forall>props. obj_get attrs ''properties'' = JObj props
                    \<and> \<not> truthy (obj_get attrs ''isFluentSchema'') \<longrightarrow>
                    obj_get e ''properties'' = JObj props))))
   \<and> ebind (S_object (withOptions \<lparr>generateIds = True, factory = None\<rparr>)) (\<lambda>b0.
     ebind FluentJSONSchema_object (\<lambda>f0.
     ebind FluentJSONSchema_string (\<lambda>s0.
     ebind (ObjectSchema_prop f0 (JStr ''bar'') (Fluent s0)) (\<lambda>f1.
     ebind (required f1 JUndef) (\<lambda>f2.
     ebind (ObjectSchema_prop b0 (JStr ''foo'') (Fluent f2)) (\<lambda>b1. valueOf b1 True))))))
     = Inr [(''$schema'', JStr ''http://json-schema.org/draft-07/schema#''),
            (''type'', JStr ''object''),
            (''properties'',
               JObj [(''foo'',
                  JObj [(''type'', JStr ''object''),
                        (''properties'',
                           JObj [(''bar'', JObj [(''type'', JStr ''string''),
                                    (''$id'', JStr ''#properties/foo/properties/bar'')])]),
                        (''required'', JArr [JStr ''bar'']),
                        (''$id'', JStr ''#properties/foo'')])])]"
proof -
  have chain: "ebind (S_object (withOptions \<lparr>generateIds = True, factory = None\<rparr>)) (\<lambda>b0.
     ebind FluentJSONSchema_object (\<lambda>f0.
     ebind FluentJSONSchema_string (\<lambda>s0.
     ebind (ObjectSchema_prop f0 (JStr ''bar'') (Fluent s0)) (\<lambda>f1.
     ebind (required f1 JUndef) (\<lambda>f2.
     ebind (ObjectSchema_prop b0 (JStr ''foo'') (Fluent f2)) (\<lambda>b1. valueOf b1 True))))))
     = Inr [(''$schema'', JStr ''http://json-schema.org/draft-07/schema#''),
            (''type'', JStr ''object''),
            (''properties'',
               JObj [(''foo'',
                  JObj [(''type'', JStr ''object''),
                        (''properties'',
                           JObj [(''bar'', JObj [(''type'', JStr ''string''),
                                    (''$id'', JStr ''#properties/foo/properties/bar'')])]),
                        (''required'', JArr [JStr ''bar'']),
                        (''$id'', JStr ''#properties/foo'')])])]"
    by code_simp
  have props: "\<exists>es e. obj_get (base_schema b') ''properties'' = JArr (es @ [JObj e])
         \<and> obj_get e ''name'' = JStr n
         \<and> (truthy (obj_get attrs ''$ref'') \<longrightarrow>
              e = [(''name'', JStr n), (''$ref'', obj_get attrs ''$ref'')])
         \<and> (\<not> truthy (obj_get attrs ''$ref'') \<longrightarrow>
              (\<not> truthy (obj_get attrs ''$id'') \<longrightarrow>
                 obj_get e ''$id'' = JStr (''#properties/'' @ n))
              \<and> (\<forall>v. obj_get attrs ''$id'' = JStr v \<and> v \<noteq> [] \<longrightarrow> obj_get e ''$id'' = JStr v)
              \<and> (\<forall>props key p.
                    obj_get attrs ''properties'' = JObj props \<and> distinct (map fst props)
                    \<and> map_of props key = Some p \<and> \<not> truthy (get p ''$id'') \<longrightarrow>
                    (\<exists>ps p' pid.
                       obj_get e ''properties'' = JObj ps \<and> map_of ps key = Some (JObj p')
                       \<and> to_str (entry_id True ''properties'' n attrs) = Inr pid
                       \<and> obj_get p' ''$id'' = JStr (pid @ ''/properties/'' @ key))))"
    if gen: "generateIds (opts b)" and sub: "valueOf sub False = Inr attrs"
      and res: "ObjectSchema_prop b (JStr n) (Fluent sub) = Inr b'"
  proof -
    from generated_ids_of_prop[OF gen sub res] obtain es e where
      list: "obj_get (base_schema b') ''properties'' = JArr (es @ [JObj e])"
      and name: "obj_get e ''name'' = JStr n"
      and ref: "truthy (obj_get attrs ''$ref'') \<longrightarrow>
          e = [(''name'', JStr n), (''$ref'', obj_get attrs ''$ref'')]"
      and own: "\<not> truthy (obj_get attrs ''$ref'') \<longrightarrow>
          (\<not> truthy (obj_get attrs ''$id'') \<longrightarrow>
             obj_get e ''$id'' = JStr (''#properties/'' @ n))
          \<and> (\<forall>v. obj_get attrs ''$id'' = JStr v \<and> v \<noteq> [] \<longrightarrow> obj_get e ''$id'' = JStr v)"
      and nested: "\<not> truthy (obj_get attrs ''$ref'') \<longrightarrow>
          (\<forall>props key p.
              obj_get attrs ''properties'' = JObj props \<and> distinct (map fst props)
              \<and> map_of props key = Some p \<longrightarrow>
              (\<exists>ps p' pid s.
                 obj_get e ''properties'' = JObj ps \<and> map_of ps key = Some (JObj p')
                 \<and> to_str (entry_id True ''properties'' n attrs) = Inr pid
                 \<and> js_or (get p ''$id'') (JStr (''#properties/'' @ key)) = JStr s
                 \<and> obj_get p' ''$id'' = JStr (pid @ ''/'' @ remove_hash s)))"
      by blast
    have fresh: "\<exists>ps p' pid.
        obj_get e ''properties'' = JObj ps \<and> map_of ps key = Some (JObj p')
        \<and> to_str (entry_id True ''properties'' n attrs) = Inr pid
        \<and> obj_get p' ''$id'' = JStr (pid @ ''/properties/'' @ key)"
      if noref: "\<not> truthy (obj_get attrs ''$ref'')"
        and ps: "obj_get attrs ''properties'' = JObj props" "distinct (map fst props)"
          "map_of props key = Some p"
        and noid: "\<not> truthy (get p ''$id'')"
      for props key p
    proof -
      from nested noref ps obtain qs p' pid s where
        q: "obj_get e ''properties'' = JObj qs" "map_of qs key = Some (JObj p')"
          "to_str (entry_id True ''properties'' n attrs) = Inr pid"
          "js_or (get p ''$id'') (JStr (''#properties/'' @ key)) = JStr s"
          "obj_get p' ''$id'' = JStr (pid @ ''/'' @ remove_hash s)"
        by blast
      from q(4) noid have "s = ''#properties/'' @ key"
        by (simp add: js_or_def)
      hence "remove_hash s = ''properties/'' @ key"
        by simp
      with q(5) have "obj_get p' ''$id'' = JStr (pid @ ''/properties/'' @ key)"
        by simp
      with q(1,2,3) show ?thesis by blast
    qed
    from list name ref own fresh show ?thesis by blast
  qed
  have defs: "\<exists>es e. obj_get (base_schema b'') ''definitions'' = JArr (es @ [JObj e])
         \<and> (\<not> truthy (obj_get attrs ''$ref'') \<longrightarrow>
              (\<not> truthy (obj_get attrs ''$id'') \<longrightarrow>
                 obj_get e ''$id'' = JStr (''#definitions/'' @ n))
              \<and> (\<forall>v. obj_get attrs ''$id'' = JStr v \<and> v \<noteq> [] \<longrightarrow> obj_get e ''$id'' = JStr v)
              \<and> (\<forall>props. obj_get attrs ''properties'' = JObj props
                    \<and> \<not> truthy (obj_get attrs ''isFluentSchema'') \<longrightarrow>
                    obj_get e ''properties'' = JObj props))"
    if "generateIds (opts b)" and "valueOf sub False = Inr attrs"
      and "ObjectSchema_definition b (JStr n) (Fluent sub) = Inr b''"
    using generated_id_of_definition[OF that] .
  from props defs chain show ?thesis
    by (intro conjI impI; (elim conjE)?) blast+
qed

theorem C6_generated_ids_witness:
  "generateIds (opts example_generating)
   \<and> valueOf example_inner False = Inr example_inner_value
   \<and> ObjectSchema_prop example_generating (JStr ''foo'') (Fluent example_inner)
       = Inr (construct ObjectSchema example_generated_state (opts example_generating))
   \<and> (\<exists>es e ps p'.
         obj_get example_generated_state ''properties'' = JArr (es @ [JObj e])
         \<and> obj_get e ''name'' = JStr ''foo''
         \<and> obj_get e ''$id'' = JStr ''#properties/foo''
         \<and> obj_get e ''properties'' = JObj ps \<and> map_of ps ''bar'' = Some (JObj p')
         \<and> obj_get p' ''$id'' = JStr ''#properties/foo/properties/bar'')
   \<and> ObjectSchema_definition example_generating (JStr ''foo'') (Fluent example_inner)
       = Inr (construct ObjectSchema example_defined_state (opts example_generating))
   \<and> (\<exists>es e.
         obj_get example_defined_state ''definitions'' = JArr (es @ [JObj e])
         \<and> obj_get e ''$id'' = JStr ''#definitions/foo''
         \<and> obj_get e ''properties'' = JObj [(''bar'', JObj [(''type'', JStr ''string'')])])"
proof -
  let ?b' = "construct ObjectSchema example_generated_state (opts example_generating)"
  let ?b'' = "construct ObjectSchema example_defined_state (opts example_generating)"
  have g: "generateIds (opts example_generating)"
    by code_simp
  have v: "valueOf example_inner False = Inr example_inner_value"
    by code_simp
  have r: "ObjectSchema_prop example_generating (JStr ''foo'') (Fluent example_inner) = Inr ?b'"
    by code_simp
  have r2: "ObjectSchema_definition example_generating (JStr ''foo'') (Fluent example_inner)
      = Inr ?b''"
    by code_simp
  have st: "base_schema ?b' = example_generated_state" "base_schema ?b'' = example_defined_state"
    by (simp_all add: construct_def)
  have a1: "\<not> truthy (obj_get example_inner_value ''$ref'')"
    "\<not> truthy (obj_get example_inner_value ''$id'')"
    "\<not> truthy (obj_get example_inner_value ''isFluentSchema'')"
    by code_simp+
  have a2: "obj_get example_inner_value ''properties'' = JObj [(''bar'', JObj [(''type'', JStr ''string'')])]"
    "distinct (map fst [(''bar'', JObj [(''type'', JStr ''string'')])])"
    "map_of [(''bar'', JObj [(''type'', JStr ''string'')])] ''bar'' = Some (JObj [(''type'', JStr ''string'')])"
    by code_simp+
  have a3: "to_str (entry_id True ''properties'' ''foo'' example_inner_value) = Inr ''#properties/foo''"
    "\<not> truthy (get (JObj [(''type'', JStr ''string'')]) ''$id'')"
    by code_simp+
  from C6_generated_ids[of example_generating example_inner example_inner_value "''foo''"
      ?b' ?b''] g v r
  obtain es e where
    list: "obj_get (base_schema ?b') ''properties'' = JArr (es @ [JObj e])"
    and name: "obj_get e ''name'' = JStr ''foo''"
    and rest: "\<not> truthy (obj_get example_inner_value ''$ref'') \<longrightarrow>
        (\<not> truthy (obj_get example_inner_value ''$id'') \<longrightarrow>
           obj_get e ''$id'' = JStr (''#properties/'' @ ''foo''))
        \<and> (\<forall>props key p.
              obj_get example_inner_value ''properties'' = JObj props \<and> distinct (map fst props)
              \<and> map_of props key = Some p \<and> \<not> truthy (get p ''$id'') \<longrightarrow>
              (\<exists>ps p' pid.
                 obj_get e ''properties'' = JObj ps \<and> map_of ps key = Some (JObj p')
                 \<and> to_str (entry_id True ''properties'' ''foo'' example_inner_value) = Inr pid
                 \<and> obj_get p' ''$id'' = JStr (pid @ ''/properties/'' @ key)))"
    by blast
  from rest a1 have id: "obj_get e ''$id'' = JStr (''#properties/'' @ ''foo'')" by blast
  from rest a1 a2 a3(2) obtain ps p' pid where
    nested: "obj_get e ''properties'' = JObj ps" "map_of ps ''bar'' = Some (JObj p')"
      "to_str (entry_id True ''properties'' ''foo'' example_inner_value) = Inr pid"
      "obj_get p' ''$id'' = JStr (pid @ ''/properties/'' @ ''bar'')"
    by blast
  from nested(3) a3(1) have "pid = ''#properties/foo''" by simp
  with nested(4) have nid: "obj_get p' ''$id'' = JStr ''#properties/foo/properties/bar''" by simp
  from list st have list': "obj_get example_generated_state ''properties'' = JArr (es @ [JObj e])"
    by simp
  from id have id': "obj_get e ''$id'' = JStr ''#properties/foo''" by simp
  from list' name id' nested(1,2) nid have first: "\<exists>es e ps p'.
         obj_get example_generated_state ''properties'' = JArr (es @ [JObj e])
         \<and> obj_get e ''name'' = JStr ''foo''
         \<and> obj_get e ''$id'' = JStr ''#properties/foo''
         \<and> obj_get e ''properties'' = JObj ps \<and> map_of ps ''bar'' = Some (JObj p')
         \<and> obj_get p' ''$id'' = JStr ''#properties/foo/properties/bar''"
    by blast
  from C6_generated_ids[of example_generating example_inner example_inner_value "''foo''"
      ?b' ?b''] g v r2
  obtain ds d where
    dlist: "obj_get (base_schema ?b'') ''definitions'' = JArr (ds @ [JObj d])"
    and drest: "\<not> truthy (obj_get example_inner_value ''$ref'') \<longrightarrow>
        (\<not> truthy (obj_get example_inner_value ''$id'') \<longrightarrow>
           obj_get d ''$id'' = JStr (''#definitions/'' @ ''foo''))
        \<and> (\<forall>props. obj_get example_inner_value ''properties'' = JObj props
              \<and> \<not> truthy (obj_get example_inner_value ''isFluentSchema'') \<longrightarrow>
              obj_get d ''properties'' = JObj props)"
    by blast
  from drest a1 have "obj_get d ''$id'' = JStr (''#definitions/'' @ ''foo'')" by blast
  then have did: "obj_get d ''$id'' = JStr ''#definitions/foo''" by simp
  from drest a1 a2(1) have dprops:
    "obj_get d ''properties'' = JObj [(''bar'', JObj [(''type'', JStr ''string'')])]"
    by blast
  from dlist st have "obj_get example_defined_state ''definitions'' = JArr (ds @ [JObj d])"
    by simp
  with did dprops have second: "\<exists>es e.
         obj_get example_defined_state ''definitions'' = JArr (es @ [JObj e])
         \<and> obj_get e ''$id'' = JStr ''#definitions/foo''
         \<and> obj_get e ''properties'' = JObj [(''bar'', JObj [(''type'', JStr ''string'')])]"
    by blast
  from g v r r2 first second show ?thesis
    by (simp only: simp_thms)
qed

subsection \<open>Round trip through the raw entry point\<close>

text \<open>
  C9 as the claim states it does not hold on a kind it names, a fragment without
  \<^verbatim>\<open>type\<close>. \<^verbatim>\<open>S.required(['a'])\<close> serializes to \<^verbatim>\<open>$schema\<close> and \<^verbatim>\<open>required: ['a']\<close>;
  \<^verbatim>\<open>RawSchema\<close> of that output keeps \<^verbatim>\<open>$schema\<close> alone, and the second serialization has
  lost the required list. \<^verbatim>\<open>RawSchema\<close> takes \<^verbatim>\<open>definitions\<close>, \<^verbatim>\<open>properties\<close> and
  \<^verbatim>\<open>required\<close> out of every fragment and puts them back for the type \<^verbatim>\<open>object\<close> only: the
  required list of \<^verbatim>\<open>S.string().raw({ required: ['a'] })\<close> is lost in the same way.
\<close>

theorem C9_required_without_type_is_lost:
  "ebind (required S_default (JArr [JStr ''a''])) (\<lambda>b.
   ebind (valueOf b True) (\<lambda>out.
   ebind (RawSchema (JObj out)) (\<lambda>r.
   Inr (js_state (base_schema b), out, valueOf r True))))
   = Inr (True,
          [(''$schema'', JStr ''http://json-schema.org/draft-07/schema#''),
           (''required'', JArr [JStr ''a''])],
          Inr [(''$schema'', JStr ''http://json-schema.org/draft-07/schema#'')])
   \<and> ebind FluentJSONSchema_string (\<lambda>s0.
     ebind (raw s0 (JObj [(''required'', JArr [JStr ''a''])])) (\<lambda>b.
     ebind (valueOf b True) (\<lambda>out.
     ebind (RawSchema (JObj out)) (\<lambda>r.
     Inr (js_state (base_schema b), out, valueOf r True)))))
   = Inr (True,
          [(''$schema'', JStr ''http://json-schema.org/draft-07/schema#''),
           (''type'', JStr ''string''), (''required'', JArr [JStr ''a''])],
          Inr [(''$schema'', JStr ''http://json-schema.org/draft-07/schema#''),
               (''type'', JStr ''string'')])"
  by code_simp

text \<open>
  C9, amended. Let a builder have a well-formed state (the entries of its lists being
  objects with distinct keys, the state without a key \<^verbatim>\<open>__proto__\<close>), let \<^verbatim>\<open>valueOf()\<close>
  return \<open>out\<close>, and let \<^verbatim>\<open>RawSchema\<close> take \<open>out\<close> in whole: its \<^verbatim>\<open>type\<close> is \<^verbatim>\<open>object\<close>; or
  its \<^verbatim>\<open>type\<close> is \<^verbatim>\<open>string\<close>, \<^verbatim>\<open>number\<close>, \<^verbatim>\<open>integer\<close>, \<^verbatim>\<open>boolean\<close> or \<^verbatim>\<open>array\<close>, or it has no
  \<^verbatim>\<open>type\<close>, and it has none of \<^verbatim>\<open>definitions\<close>, \<^verbatim>\<open>properties\<close> and \<^verbatim>\<open>required\<close>. Then
  \<^verbatim>\<open>RawSchema(out)\<close> returns a builder, the \<^verbatim>\<open>valueOf()\<close> of that builder returns, and
  what it returns has the entries of \<open>out\<close>, which is deep equality (the key \<^verbatim>\<open>type\<close>
  may have moved).
\<close>

theorem C9_raw_round_trip:
  "js_state (base_schema b) \<and> valueOf b True = Inr out \<and> kept_by_raw out \<longrightarrow>
     (\<exists>r out'. RawSchema (JObj out) = Inr r \<and> valueOf r True = Inr out'
        \<and> same_entries out' out)"
proof (intro impI, elim conjE)
  let ?s = "base_schema b"
  assume js: "js_state ?s" and v: "valueOf b True = Inr out" and rep: "kept_by_raw out"
  from js have wf: "wf_state ?s"
    by (simp add: js_state_def)
  from v have "(if True \<and> unresolved_sentinel (obj_get ?s ''required'') then Inl FluentSchemaError
      else Inr (valueOf_amended ?s)) = Inr out"
    unfolding valueOf_def valueOf_schema_wf[OF wf] .
  then have ns: "\<not> unresolved_sentinel (obj_get ?s ''required'')" and out: "out = valueOf_amended ?s"
    by (simp_all split: if_splits)
  from rep consider
    (object) "obj_get out ''type'' = JStr ''object''"
    | (typed) "obj_get out ''type'' \<in> set [JStr ''string'', JStr ''number'', JStr ''integer'',
                                           JStr ''boolean'', JStr ''array'']"
        "''definitions'' \<notin> set (map fst out)" "''properties'' \<notin> set (map fst out)"
        "''required'' \<notin> set (map fst out)"
    | (base) "''type'' \<notin> set (map fst out)"
        "''definitions'' \<notin> set (map fst out)" "''properties'' \<notin> set (map fst out)"
        "''required'' \<notin> set (map fst out)"
    unfolding kept_by_raw_def by blast
  then show "\<exists>r out'. RawSchema (JObj out) = Inr r \<and> valueOf r True = Inr out'
      \<and> same_entries out' out"
  proof cases
    case object
    let ?r = "raw_object (JObj out)"
    have r: "RawSchema (JObj out) = Inr ?r"
      using object by (rule RawSchema_object)
    note rt = roundtrip_object[OF js ns object[unfolded out] refl, folded out]
    from valueOf_wf[OF rt(1,2)] r rt(3) show ?thesis by blast
  next
    case typed
    from RawSchema_typed[OF typed(1)] obtain k f where
      r: "RawSchema (JObj out) = Inr (raw_typed k f (JObj out))"
      by blast
    let ?r = "raw_typed k f (JObj out)"
    from typed(1) obtain t where t: "obj_get out ''type'' = JStr t"
      by (simp only: list.set insert_iff empty_iff) blast
    have a: "map_of [(''type'', obj_get out ''type'')] ''type'' = map_of out ''type''"
      using map_of_present[OF t] by simp
    have st: "base_schema ?r = obj_assign [(''type'', obj_get out ''type'')] (raw_props (JObj out))"
      by (rule base_schema_raw_typed)
    have rt: "wf_state (base_schema ?r)"
      "\<not> unresolved_sentinel (obj_get (base_schema ?r) ''required'')"
      "same_entries (valueOf_amended (base_schema ?r)) out"
      using roundtrip_plain[OF js _ _ a[unfolded out] typed(2-4)[unfolded out] st[unfolded out]]
      unfolding out by simp_all
    from valueOf_wf[OF rt(1,2)] r rt(3) show ?thesis by blast
  next
    case base
    from RawSchema_base[OF base(1)] obtain r where
      r: "RawSchema (JObj out) = Inr r" and st: "base_schema r = raw_props (JObj out)"
      by blast
    have dout: "distinct (map fst out)"
      unfolding out using wf by (intro distinct_valueOf_amended) (simp add: wf_state_def)
    have "distinct (map fst (raw_props (JObj out)))"
      unfolding raw_props_filter using dout by (rule distinct_map_filter)
    then have "obj_assign [] (raw_props (JObj out)) = raw_props (JObj out)"
      using obj_assign_append[of "[]" "raw_props (JObj out)"] by simp
    with st have st': "base_schema r = obj_assign [] (raw_props (JObj out))"
      by simp
    have a: "map_of [] ''type'' = map_of out ''type''"
      using map_of_absent[OF base(1)] by simp
    have rt: "wf_state (base_schema r)"
      "\<not> unresolved_sentinel (obj_get (base_schema r) ''required'')"
      "same_entries (valueOf_amended (base_schema r)) out"
      using roundtrip_plain[OF js _ _ a[unfolded out] base(2-4)[unfolded out] st'[unfolded out]]
      unfolding out by simp_all
    from valueOf_wf[OF rt(1,2)] r rt(3) show ?thesis by blast
  qed
qed

theorem C9_raw_round_trip_witness:
  "js_state (base_schema example_builder)
   \<and> valueOf example_builder True = Inr example_output
   \<and> kept_by_raw example_output
   \<and> (\<exists>r out'. RawSchema (JObj example_output) = Inr r \<and> valueOf r True = Inr out'
         \<and> same_entries out' example_output)
   \<and> js_state (base_schema example_string)
   \<and> valueOf example_string True = Inr example_string_output
   \<and> kept_by_raw example_string_output
   \<and> (\<exists>r out'. RawSchema (JObj example_string_output) = Inr r \<and> valueOf r True = Inr out'
         \<and> same_entries out' example_string_output)"
proof -
  have h: "js_state (base_schema example_builder)"
    "valueOf example_builder True = Inr example_output"
    "kept_by_raw example_output"
    by code_simp+
  have g: "js_state (base_schema example_string)"
    "valueOf example_string True = Inr example_string_output"
    "kept_by_raw example_string_output"
    by code_simp+
  from C9_raw_round_trip[of example_builder example_output] h
  have 1: "\<exists>r out'. RawSchema (JObj example_output) = Inr r \<and> valueOf r True = Inr out'
         \<and> same_entries out' example_output"
    by blast
  from C9_raw_round_trip[of example_string example_string_output] g
  have 2: "\<exists>r out'. RawSchema (JObj example_string_output) = Inr r \<and> valueOf r True = Inr out'
         \<and> same_entries out' example_string_output"
    by blast
  from h g 1 2 show ?thesis
    by (simp only: simp_thms)
qed

end
